theory Spec2Isabelle
  imports Complex_Main "HOL-Library.Signed_Division"
begin

section \<open>The d2q9-bgk lattice Boltzmann code (d2q9-bgk.c)\<close>

text \<open>
  A shallow embedding of \<^verbatim>\<open>d2q9-bgk.c\<close>. Conventions of the model:
  \<^item> A C \<^verbatim>\<open>float\<close> is a real number (exact arithmetic). A float division whose divisor is
    zero has no real value (C yields an infinity or a NaN); it is the error
    \<open>Division_by_zero\<close>.
  \<^item> A C \<^verbatim>\<open>int\<close> is an unbounded integer: the grid sizes are taken to be small enough for
    the index arithmetic not to overflow.
  \<^item> A block returned by \<^verbatim>\<open>malloc\<close> is a list of slots, each \<open>None\<close> until the program
    writes it. Reading a slot that was never written is the error \<open>Uninit_read\<close>;
    indexing outside the block is the error \<open>Out_of_bounds\<close>.
  \<^item> \<^verbatim>\<open>die\<close> (message on standard error, \<^verbatim>\<open>exit(EXIT_FAILURE)\<close>) is the error
    \<open>Fatal\<close> with its message.
  \<^item> An input file is its name and its text, read by a model of \<^verbatim>\<open>fscanf\<close>; a number in a
    form that this model does not cover is the error \<open>Not_modelled\<close>.
  \<^item> What the program prints is no part of the state; the reads that a printout makes
    are reads like any other.
\<close>

subsection \<open>Errors and sequencing\<close>

datatype error = Fatal string | Out_of_bounds | Uninit_read | Division_by_zero | Not_modelled

definition bind_err :: "error + 'a \<Rightarrow> ('a \<Rightarrow> error + 'b) \<Rightarrow> error + 'b" where
  "bind_err m f = (case m of Inl e \<Rightarrow> Inl e | Inr x \<Rightarrow> f x)"

text \<open>A block of statements, run in order; the first error ends the run.\<close>

primrec run_stmts :: "('s \<Rightarrow> error + 's) list \<Rightarrow> 's \<Rightarrow> error + 's" where
  "run_stmts [] s = Inr s"
| "run_stmts (c # cs) s = bind_err (c s) (run_stmts cs)"

text \<open>\<^verbatim>\<open>for (int k = lo; k < hi; k++) body\<close>\<close>

definition for_loop :: "int \<Rightarrow> int \<Rightarrow> (int \<Rightarrow> 's \<Rightarrow> error + 's) \<Rightarrow> 's \<Rightarrow> error + 's" where
  "for_loop lo hi body s = run_stmts (map body [lo..hi - 1]) s"

definition fdiv :: "real \<Rightarrow> real \<Rightarrow> error + real" where
  "fdiv a b = (if b = 0 then Inl Division_by_zero else Inr (a / b))"

subsection \<open>Memory blocks\<close>

definition malloc :: "int \<Rightarrow> 'a \<Rightarrow> 'a list option" where
  \<comment> \<open>\<open>n\<close> elements, each in the state \<open>fresh\<close>. A negative count converts to a huge
      \<^verbatim>\<open>size_t\<close>, which no allocation satisfies: \<^verbatim>\<open>NULL\<close>.\<close>
  "malloc n fresh = (if n < 0 then None else Some (replicate (nat n) fresh))"

definition arr_get :: "'a option list \<Rightarrow> int \<Rightarrow> error + 'a" where
  "arr_get a i =
     (if i < 0 \<or> int (length a) \<le> i then Inl Out_of_bounds
      else case a ! nat i of None \<Rightarrow> Inl Uninit_read | Some v \<Rightarrow> Inr v)"

definition arr_set :: "'a option list \<Rightarrow> int \<Rightarrow> 'a \<Rightarrow> error + 'a option list" where
  "arr_set a i v =
     (if i < 0 \<or> int (length a) \<le> i then Inl Out_of_bounds
      else Inr (a[nat i := Some v]))"

subsection \<open>Parameters and cells\<close>

record t_param =
  nx :: int
  ny :: int
  maxIters :: int
  reynolds_dim :: int
  density :: real
  accel :: real
  omega :: real

text \<open>
  \<^verbatim>\<open>typedef struct { float speeds[NSPEEDS]; } t_speed;\<close>
  The nine populations of a cell, each present once written. Every access in the source
  has a speed index below \<open>NSPEEDS\<close>.
\<close>

type_synonym t_speed = "nat \<rightharpoonup> real"

definition NSPEEDS :: int where
  "NSPEEDS = 9"

definition get_speed :: "t_speed list \<Rightarrow> int \<Rightarrow> nat \<Rightarrow> error + real" where
  \<comment> \<open>the value of \<^verbatim>\<open>g[i].speeds[kk]\<close>\<close>
  "get_speed g i kk =
     (if i < 0 \<or> int (length g) \<le> i then Inl Out_of_bounds
      else case (g ! nat i) kk of None \<Rightarrow> Inl Uninit_read | Some v \<Rightarrow> Inr v)"

definition set_speed :: "t_speed list \<Rightarrow> int \<Rightarrow> nat \<Rightarrow> real \<Rightarrow> error + t_speed list" where
  \<comment> \<open>\<^verbatim>\<open>g[i].speeds[kk] = v\<close>\<close>
  "set_speed g i kk v =
     (if i < 0 \<or> int (length g) \<le> i then Inl Out_of_bounds
      else Inr (g[nat i := (g ! nat i)(kk \<mapsto> v)]))"

text \<open>The two lattices the kernels work on: the main grid and the scratch space.\<close>

record grids =
  cells :: "t_speed list"
  tmp_cells :: "t_speed list"

subsection \<open>collision: the equilibrium densities\<close>

definition d_equ :: "real \<Rightarrow> real \<Rightarrow> real \<Rightarrow> real list" where
  "d_equ local_density u_x u_y =
     (let c_sq = 1 / 3; w0 = 4 / 9; w1 = 1 / 9; w2 = 1 / 36;
          u_sq = u_x * u_x + u_y * u_y;
          u1 = u_x;
          u2 = u_y;
          u3 = - u_x;
          u4 = - u_y;
          u5 = u_x + u_y;
          u6 = - u_x + u_y;
          u7 = - u_x - u_y;
          u8 = u_x - u_y
      in [w0 * local_density * (1 - u_sq / (2 * c_sq)),
          w1 * local_density * (1 + u1 / c_sq + (u1 * u1) / (2 * c_sq * c_sq) - u_sq / (2 * c_sq)),
          w1 * local_density * (1 + u2 / c_sq + (u2 * u2) / (2 * c_sq * c_sq) - u_sq / (2 * c_sq)),
          w1 * local_density * (1 + u3 / c_sq + (u3 * u3) / (2 * c_sq * c_sq) - u_sq / (2 * c_sq)),
          w1 * local_density * (1 + u4 / c_sq + (u4 * u4) / (2 * c_sq * c_sq) - u_sq / (2 * c_sq)),
          w2 * local_density * (1 + u5 / c_sq + (u5 * u5) / (2 * c_sq * c_sq) - u_sq / (2 * c_sq)),
          w2 * local_density * (1 + u6 / c_sq + (u6 * u6) / (2 * c_sq * c_sq) - u_sq / (2 * c_sq)),
          w2 * local_density * (1 + u7 / c_sq + (u7 * u7) / (2 * c_sq * c_sq) - u_sq / (2 * c_sq)),
          w2 * local_density * (1 + u8 / c_sq + (u8 * u8) / (2 * c_sq * c_sq) - u_sq / (2 * c_sq))])"

subsection \<open>Statements shared by the kernels\<close>

definition tmp_from_cells :: "int \<Rightarrow> nat \<Rightarrow> int \<Rightarrow> nat \<Rightarrow> grids \<Rightarrow> error + grids" where
  \<comment> \<open>\<^verbatim>\<open>tmp_cells[dst].speeds[k] = cells[src].speeds[k'];\<close>\<close>
  "tmp_from_cells dst k src k' g =
     bind_err (get_speed (cells g) src k') (\<lambda>v.
     bind_err (set_speed (tmp_cells g) dst k v) (\<lambda>t.
     Inr (g\<lparr>tmp_cells := t\<rparr>)))"

definition cells_from_tmp :: "int \<Rightarrow> nat \<Rightarrow> int \<Rightarrow> nat \<Rightarrow> grids \<Rightarrow> error + grids" where
  \<comment> \<open>\<^verbatim>\<open>cells[dst].speeds[k] = tmp_cells[src].speeds[k'];\<close>\<close>
  "cells_from_tmp dst k src k' g =
     bind_err (get_speed (tmp_cells g) src k') (\<lambda>v.
     bind_err (set_speed (cells g) dst k v) (\<lambda>c.
     Inr (g\<lparr>cells := c\<rparr>)))"

definition add_to_speed :: "int \<Rightarrow> nat \<Rightarrow> real \<Rightarrow> grids \<Rightarrow> error + grids" where
  \<comment> \<open>\<^verbatim>\<open>cells[i].speeds[k] += w;\<close>\<close>
  "add_to_speed i k w g =
     bind_err (get_speed (cells g) i k) (\<lambda>v.
     bind_err (set_speed (cells g) i k (v + w)) (\<lambda>c.
     Inr (g\<lparr>cells := c\<rparr>)))"

definition sub_from_speed :: "int \<Rightarrow> nat \<Rightarrow> real \<Rightarrow> grids \<Rightarrow> error + grids" where
  \<comment> \<open>\<^verbatim>\<open>cells[i].speeds[k] -= w;\<close>\<close>
  "sub_from_speed i k w g =
     bind_err (get_speed (cells g) i k) (\<lambda>v.
     bind_err (set_speed (cells g) i k (v - w)) (\<lambda>c.
     Inr (g\<lparr>cells := c\<rparr>)))"

text \<open>
  The three computations that collision, av\_velocity and write\_values each spell out on a
  cell \<open>i\<close> of a grid: the sum of its nine populations, and the two velocity components.
\<close>

definition sum_speeds :: "t_speed list \<Rightarrow> int \<Rightarrow> error + real" where
  \<comment> \<open>\<^verbatim>\<open>local_density = 0.f; for (kk = 0; kk < NSPEEDS; kk++) local_density += g[i].speeds[kk];\<close>\<close>
  "sum_speeds g i =
     for_loop 0 NSPEEDS
       (\<lambda>kk local_density. bind_err (get_speed g i (nat kk)) (\<lambda>v. Inr (local_density + v))) 0"

definition x_velocity :: "t_speed list \<Rightarrow> int \<Rightarrow> real \<Rightarrow> error + real" where
  "x_velocity g i local_density =
     bind_err (get_speed g i 1) (\<lambda>s1.
     bind_err (get_speed g i 5) (\<lambda>s5.
     bind_err (get_speed g i 8) (\<lambda>s8.
     bind_err (get_speed g i 3) (\<lambda>s3.
     bind_err (get_speed g i 6) (\<lambda>s6.
     bind_err (get_speed g i 7) (\<lambda>s7.
     fdiv (s1 + s5 + s8 - (s3 + s6 + s7)) local_density))))))"

definition y_velocity :: "t_speed list \<Rightarrow> int \<Rightarrow> real \<Rightarrow> error + real" where
  "y_velocity g i local_density =
     bind_err (get_speed g i 2) (\<lambda>s2.
     bind_err (get_speed g i 5) (\<lambda>s5.
     bind_err (get_speed g i 6) (\<lambda>s6.
     bind_err (get_speed g i 4) (\<lambda>s4.
     bind_err (get_speed g i 7) (\<lambda>s7.
     bind_err (get_speed g i 8) (\<lambda>s8.
     fdiv (s2 + s5 + s6 - (s4 + s7 + s8)) local_density))))))"

subsection \<open>accelerate\_flow\<close>

definition accelerate_cell :: "t_param \<Rightarrow> int option list \<Rightarrow> int \<Rightarrow> grids \<Rightarrow> error + grids" where
  "accelerate_cell p obstacles ii g =
     (let w1 = density p * accel p / 9;
          w2 = density p * accel p / 36;
          jj = ny p - 2
      in bind_err (arr_get obstacles (ii + jj * nx p)) (\<lambda>ob.
         if ob \<noteq> 0 then Inr g
         else bind_err (get_speed (cells g) (ii + jj * nx p) 3) (\<lambda>s3.
         if \<not> s3 - w1 > 0 then Inr g
         else bind_err (get_speed (cells g) (ii + jj * nx p) 6) (\<lambda>s6.
         if \<not> s6 - w2 > 0 then Inr g
         else bind_err (get_speed (cells g) (ii + jj * nx p) 7) (\<lambda>s7.
         if \<not> s7 - w2 > 0 then Inr g
         else run_stmts
           [add_to_speed (ii + jj * nx p) 1 w1,
            add_to_speed (ii + jj * nx p) 5 w2,
            add_to_speed (ii + jj * nx p) 8 w2,
            sub_from_speed (ii + jj * nx p) 3 w1,
            sub_from_speed (ii + jj * nx p) 6 w2,
            sub_from_speed (ii + jj * nx p) 7 w2] g)))))"

definition accelerate_flow :: "t_param \<Rightarrow> grids \<Rightarrow> int option list \<Rightarrow> error + grids" where
  "accelerate_flow p g obstacles = for_loop 0 (nx p) (accelerate_cell p obstacles) g"

subsection \<open>propagate\<close>

text \<open>
  Inside the two loops \<open>0 \<le> jj < ny\<close> and \<open>0 \<le> ii < nx\<close>, so the operands of
  \<^verbatim>\<open>%\<close> are not negative and C's remainder is \<open>mod\<close>.
\<close>

definition propagate_cell :: "t_param \<Rightarrow> int \<Rightarrow> int \<Rightarrow> grids \<Rightarrow> error + grids" where
  "propagate_cell p jj ii g =
     (let y_n = (jj + 1) mod ny p;
          x_e = (ii + 1) mod nx p;
          y_s = (if jj = 0 then jj + ny p - 1 else jj - 1);
          x_w = (if ii = 0 then ii + nx p - 1 else ii - 1)
      in run_stmts
           [tmp_from_cells (ii + jj * nx p) 0 (ii + jj * nx p) 0,
            tmp_from_cells (ii + jj * nx p) 1 (x_w + jj * nx p) 1,
            tmp_from_cells (ii + jj * nx p) 2 (ii + y_s * nx p) 2,
            tmp_from_cells (ii + jj * nx p) 3 (x_e + jj * nx p) 3,
            tmp_from_cells (ii + jj * nx p) 4 (ii + y_n * nx p) 4,
            tmp_from_cells (ii + jj * nx p) 5 (x_w + y_s * nx p) 5,
            tmp_from_cells (ii + jj * nx p) 6 (x_e + y_s * nx p) 6,
            tmp_from_cells (ii + jj * nx p) 7 (x_e + y_n * nx p) 7,
            tmp_from_cells (ii + jj * nx p) 8 (x_w + y_n * nx p) 8] g)"

definition propagate :: "t_param \<Rightarrow> grids \<Rightarrow> error + grids" where
  "propagate p g =
     for_loop 0 (ny p) (\<lambda>jj. for_loop 0 (nx p) (\<lambda>ii. propagate_cell p jj ii)) g"

subsection \<open>rebound\<close>

definition rebound_cell :: "t_param \<Rightarrow> int option list \<Rightarrow> int \<Rightarrow> int \<Rightarrow> grids \<Rightarrow> error + grids" where
  "rebound_cell p obstacles jj ii g =
     bind_err (arr_get obstacles (jj * nx p + ii)) (\<lambda>ob.
     if ob \<noteq> 0 then
       run_stmts
         [cells_from_tmp (ii + jj * nx p) 1 (ii + jj * nx p) 3,
          cells_from_tmp (ii + jj * nx p) 2 (ii + jj * nx p) 4,
          cells_from_tmp (ii + jj * nx p) 3 (ii + jj * nx p) 1,
          cells_from_tmp (ii + jj * nx p) 4 (ii + jj * nx p) 2,
          cells_from_tmp (ii + jj * nx p) 5 (ii + jj * nx p) 7,
          cells_from_tmp (ii + jj * nx p) 6 (ii + jj * nx p) 8,
          cells_from_tmp (ii + jj * nx p) 7 (ii + jj * nx p) 5,
          cells_from_tmp (ii + jj * nx p) 8 (ii + jj * nx p) 6] g
     else Inr g)"

definition rebound :: "t_param \<Rightarrow> grids \<Rightarrow> int option list \<Rightarrow> error + grids" where
  "rebound p g obstacles =
     for_loop 0 (ny p) (\<lambda>jj. for_loop 0 (nx p) (\<lambda>ii. rebound_cell p obstacles jj ii)) g"

subsection \<open>collision\<close>

definition relax_speed :: "t_param \<Rightarrow> int \<Rightarrow> real list \<Rightarrow> int \<Rightarrow> grids \<Rightarrow> error + grids" where
  \<comment> \<open>\<^verbatim>\<open>cells[i].speeds[kk] = tmp_cells[i].speeds[kk] + params.omega * (d_equ[kk] - tmp_cells[i].speeds[kk]);\<close>\<close>
  "relax_speed p i d kk g =
     bind_err (get_speed (tmp_cells g) i (nat kk)) (\<lambda>t.
     bind_err (get_speed (tmp_cells g) i (nat kk)) (\<lambda>t'.
     bind_err (set_speed (cells g) i (nat kk) (t + omega p * (d ! nat kk - t'))) (\<lambda>c.
     Inr (g\<lparr>cells := c\<rparr>))))"

definition collision_cell :: "t_param \<Rightarrow> int option list \<Rightarrow> int \<Rightarrow> int \<Rightarrow> grids \<Rightarrow> error + grids" where
  "collision_cell p obstacles jj ii g =
     bind_err (arr_get obstacles (ii + jj * nx p)) (\<lambda>ob.
     if ob \<noteq> 0 then Inr g
     else bind_err (sum_speeds (tmp_cells g) (ii + jj * nx p)) (\<lambda>local_density.
          bind_err (x_velocity (tmp_cells g) (ii + jj * nx p) local_density) (\<lambda>u_x.
          bind_err (y_velocity (tmp_cells g) (ii + jj * nx p) local_density) (\<lambda>u_y.
          for_loop 0 NSPEEDS
            (relax_speed p (ii + jj * nx p) (d_equ local_density u_x u_y)) g))))"

definition collision :: "t_param \<Rightarrow> grids \<Rightarrow> int option list \<Rightarrow> error + grids" where
  "collision p g obstacles =
     for_loop 0 (ny p) (\<lambda>jj. for_loop 0 (nx p) (\<lambda>ii. collision_cell p obstacles jj ii)) g"

subsection \<open>av\_velocity, total\_density, calc\_reynolds\<close>

definition av_velocity_cell ::
  "t_param \<Rightarrow> t_speed list \<Rightarrow> int option list \<Rightarrow> int \<Rightarrow> int \<Rightarrow> real \<times> int \<Rightarrow> error + real \<times> int" where
  \<comment> \<open>the state is \<open>(tot_u, tot_cells)\<close>\<close>
  "av_velocity_cell p cs obstacles jj ii acc =
     bind_err (arr_get obstacles (ii + jj * nx p)) (\<lambda>ob.
     if ob \<noteq> 0 then Inr acc
     else bind_err (sum_speeds cs (ii + jj * nx p)) (\<lambda>local_density.
          bind_err (x_velocity cs (ii + jj * nx p) local_density) (\<lambda>u_x.
          bind_err (y_velocity cs (ii + jj * nx p) local_density) (\<lambda>u_y.
          Inr (fst acc + sqrt ((u_x * u_x) + (u_y * u_y)), snd acc + 1)))))"

definition av_velocity_loop :: "t_param \<Rightarrow> t_speed list \<Rightarrow> int option list \<Rightarrow> error + real \<times> int" where
  "av_velocity_loop p cs obstacles =
     for_loop 0 (ny p) (\<lambda>jj. for_loop 0 (nx p) (\<lambda>ii. av_velocity_cell p cs obstacles jj ii)) (0, 0)"

definition av_velocity :: "t_param \<Rightarrow> t_speed list \<Rightarrow> int option list \<Rightarrow> error + real" where
  "av_velocity p cs obstacles =
     bind_err (av_velocity_loop p cs obstacles) (\<lambda>(tot_u, tot_cells).
     fdiv tot_u (real_of_int tot_cells))"

definition total_density :: "t_param \<Rightarrow> t_speed list \<Rightarrow> error + real" where
  "total_density p cs =
     for_loop 0 (ny p) (\<lambda>jj. for_loop 0 (nx p) (\<lambda>ii. for_loop 0 NSPEEDS
       (\<lambda>kk total. bind_err (get_speed cs (ii + jj * nx p) (nat kk)) (\<lambda>v. Inr (total + v))))) 0"

definition calc_reynolds :: "t_param \<Rightarrow> t_speed list \<Rightarrow> int option list \<Rightarrow> error + real" where
  "calc_reynolds p cs obstacles =
     bind_err (fdiv 2 (omega p)) (\<lambda>q.
     let viscosity = 1 / 6 * (q - 1)
     in bind_err (av_velocity p cs obstacles) (\<lambda>av.
        fdiv (av * real_of_int (reynolds_dim p)) viscosity))"

subsection \<open>timestep and the main loop\<close>

text \<open>
  The order in which the kernels run is observed through a trace: each call site appends
  the name of the substep once the call has returned. \<open>Halo_exchange\<close> names the exchange
  of the ghost rows with the neighbouring ranks; the source allocates its buffers and
  computes the neighbours' ranks, and has no call that performs it.
\<close>

datatype substep = Accelerate | Halo_exchange | Propagate | Rebound | Collide | Average

definition call :: "substep \<Rightarrow> ('s \<Rightarrow> error + 's) \<Rightarrow> substep list \<times> 's \<Rightarrow> error + substep list \<times> 's" where
  "call tag f ts = bind_err (f (snd ts)) (\<lambda>s'. Inr (fst ts @ [tag], s'))"

definition timestep ::
  "t_param \<Rightarrow> int option list \<Rightarrow> substep list \<times> grids \<Rightarrow> error + substep list \<times> grids" where
  "timestep p obstacles =
     run_stmts
       [call Accelerate (\<lambda>g. accelerate_flow p g obstacles),
        call Propagate (propagate p),
        call Rebound (\<lambda>g. rebound p g obstacles),
        call Collide (\<lambda>g. collision p g obstacles)]"

record sim_state =
  params :: t_param
  grid :: grids
  obstacles_total :: "int option list"
  obstacles :: "int option list"
  av_vels :: "real option list"
  send_buff_up :: "real option list option"
  send_buff_dn :: "real option list option"
  recv_buff_up :: "real option list option"
  recv_buff_dn :: "real option list option"

text \<open>
  The printout of the state in the first iteration (\<^verbatim>\<open>if (tt == 0)\<close>, l.229-290), which is
  compiled in: \<^verbatim>\<open>DEBUG_state_timestep\<close> is defined at l.68. It reads \<^verbatim>\<open>cells[bb + aa]\<close> and
  \<^verbatim>\<open>tmp_cells[ee + dd]\<close> for \<open>local_ny + 2\<close> rows, \<^verbatim>\<open>obstacles_total[hh + gg]\<close> for \<open>ny\<close> rows
  and \<^verbatim>\<open>obstacles[jj + ii]\<close> for \<open>local_ny\<close> rows; the row is added to the column, not
  multiplied by \<open>nx\<close>. The values printed are returned; they are no part of the state.
\<close>

definition print_grid :: "int \<Rightarrow> int \<Rightarrow> t_speed list \<Rightarrow> real list \<Rightarrow> error + real list" where
  "print_grid rows w g =
     for_loop 0 rows (\<lambda>aa. for_loop 0 w (\<lambda>bb. for_loop 0 9 (\<lambda>cc out.
       bind_err (get_speed g (bb + aa) (nat cc)) (\<lambda>v. Inr (out @ [v])))))"

definition print_mask :: "int \<Rightarrow> int \<Rightarrow> int option list \<Rightarrow> int list \<Rightarrow> error + int list" where
  "print_mask rows w m =
     for_loop 0 rows (\<lambda>gg. for_loop 0 w (\<lambda>hh out.
       bind_err (arr_get m (hh + gg)) (\<lambda>v. Inr (out @ [v]))))"

definition debug_state_timestep ::
  "int \<Rightarrow> sim_state \<Rightarrow> error + real list \<times> real list \<times> int list \<times> int list" where
  "debug_state_timestep size' s =
     (if size' = 0 then Inl Division_by_zero
      else let p = params s; local_ny = ny p sdiv size' in
        bind_err (print_grid (local_ny + 2) (nx p) (cells (grid s)) []) (\<lambda>main_grid.
        bind_err (print_grid (local_ny + 2) (nx p) (tmp_cells (grid s)) []) (\<lambda>helper_grid.
        bind_err (print_mask (ny p) (nx p) (obstacles_total s) []) (\<lambda>total.
        bind_err (print_mask local_ny (nx p) (obstacles s) []) (\<lambda>local.
        Inr (main_grid, helper_grid, total, local))))))"

text \<open>
  One iteration of the main loop, on a job of \<open>size'\<close> ranks:
  \<^verbatim>\<open>if (tt == 0) { ... } timestep(params, cells, tmp_cells, obstacles); av_vels[tt] = av_velocity(params, cells, obstacles);\<close>
\<close>

definition iteration ::
  "int \<Rightarrow> int \<Rightarrow> substep list \<times> sim_state \<Rightarrow> error + substep list \<times> sim_state" where
  "iteration size' tt ts =
     (let s = snd ts
      in bind_err (if tt = 0 then debug_state_timestep size' s else Inr ([], [], [], [])) (\<lambda>printed.
         bind_err (timestep (params s) (obstacles s) (fst ts, grid s)) (\<lambda>(tr, g).
         bind_err (av_velocity (params s) (cells g) (obstacles s)) (\<lambda>av.
         bind_err (arr_set (av_vels s) tt av) (\<lambda>avs.
         Inr (tr @ [Average], s\<lparr>grid := g, av_vels := avs\<rparr>))))))"

definition main_loop ::
  "int \<Rightarrow> substep list \<times> sim_state \<Rightarrow> error + substep list \<times> sim_state" where
  "main_loop size' ts = for_loop 0 (maxIters (params (snd ts))) (iteration size') ts"

subsection \<open>Input files and fscanf\<close>

text \<open>
  An input file is given by its name and, when \<^verbatim>\<open>fopen\<close> succeeds, its text.
  \<^verbatim>\<open>fscanf\<close> is modelled on that text, character by character, as the C library of the
  GNU system does it:
  \<^item> \<^verbatim>\<open>%d\<close> and \<^verbatim>\<open>%f\<close> skip white space, then take an optional sign and the longest run of
    characters that continues a number; what follows stays in the stream. So \<^verbatim>\<open>%d\<close> on
    \<^verbatim>\<open>2.5\<close> converts \<^verbatim>\<open>2\<close> and leaves \<^verbatim>\<open>.5\<close>.
  \<^item> \<^verbatim>\<open>%d\<close> converts through \<^verbatim>\<open>strtol\<close>, which saturates at the range of \<^verbatim>\<open>long\<close>, and stores
    the low 32 bits: a value outside the range of \<^verbatim>\<open>int\<close> wraps around.
  \<^item> \<^verbatim>\<open>%f\<close> is modelled for decimal numbers with an optional fraction. Infinities, NaNs,
    hexadecimal numbers and exponents have the outcome \<open>Outside_model\<close>, and the
    function that reads them the error \<open>Not_modelled\<close>. The value is the real number
    written; the rounding to a \<^verbatim>\<open>float\<close> is not modelled.
  \<^item> White space in a format (\<^verbatim>\<open>\n\<close>, a blank) skips white space, which the next
    conversion does anyway.
\<close>

type_synonym text_file = "string \<times> string option"

definition is_space :: "char \<Rightarrow> bool" where
  \<comment> \<open>\<^verbatim>\<open>isspace\<close>: blank, \<^verbatim>\<open>\t\<close>, \<^verbatim>\<open>\n\<close>, \<^verbatim>\<open>\v\<close>, \<^verbatim>\<open>\f\<close>, \<^verbatim>\<open>\r\<close>\<close>
  "is_space c = (c \<in> set [CHR '' '', CHR 0x09, CHR 0x0A, CHR 0x0B, CHR 0x0C, CHR 0x0D])"

definition is_digit :: "char \<Rightarrow> bool" where
  "is_digit c = (c \<in> set ''0123456789'')"

definition digit_val :: "char \<Rightarrow> nat" where
  "digit_val c = of_char c - 48"

definition digits_val :: "string \<Rightarrow> nat" where
  "digits_val ds = foldl (\<lambda>n c. 10 * n + digit_val c) 0 ds"

datatype 'a scanned = Scanned 'a string | No_conversion | Outside_model

definition scan_sign :: "string \<Rightarrow> bool \<times> string" where
  "scan_sign s =
     (case s of
        [] \<Rightarrow> (False, s)
      | c # cs \<Rightarrow> if c = CHR ''-'' then (True, cs) else if c = CHR ''+'' then (False, cs)
                  else (False, s))"

definition to_int :: "int \<Rightarrow> int" where
  "to_int v = (let l = max (- (2 ^ 63)) (min (2 ^ 63 - 1) v)
               in (l + 2 ^ 31) mod 2 ^ 32 - 2 ^ 31)"

definition scan_int :: "string \<Rightarrow> int scanned" where
  \<comment> \<open>one \<^verbatim>\<open>%d\<close>\<close>
  "scan_int s =
     (let (neg, s1) = scan_sign (dropWhile is_space s);
          ds = takeWhile is_digit s1
      in if ds = [] then No_conversion
         else Scanned (to_int (if neg then - int (digits_val ds) else int (digits_val ds)))
                (dropWhile is_digit s1))"

definition scan_float :: "string \<Rightarrow> real scanned" where
  \<comment> \<open>one \<^verbatim>\<open>%f\<close>\<close>
  "scan_float s =
     (let (neg, s1) = scan_sign (dropWhile is_space s);
          ds = takeWhile is_digit s1;
          s2 = dropWhile is_digit s1;
          (fs, s3) = (case s2 of
                        c # cs \<Rightarrow> if c = CHR ''.'' then (takeWhile is_digit cs, dropWhile is_digit cs)
                                  else ([], s2)
                      | [] \<Rightarrow> ([], s2));
          v = real (digits_val ds) + real (digits_val fs) / 10 ^ length fs
      in if s1 \<noteq> [] \<and> hd s1 \<in> set ''iInN'' then Outside_model
         else if ds = [] \<and> fs = [] then No_conversion
         else if s3 \<noteq> [] \<and> hd s3 \<in> set ''eExX'' then Outside_model
         else Scanned (if neg then - v else v) s3)"

subsection \<open>initialise\<close>

text \<open>
  The first block of initialise (l.380-420): the parameter file is opened and seven
  values are converted from it, each with its own \<^verbatim>\<open>fscanf\<close>; a return value other than 1
  is fatal.
\<close>

definition read_int :: "string \<Rightarrow> string \<Rightarrow> error + int \<times> string" where
  "read_int what s =
     (case scan_int s of
        Scanned v rest \<Rightarrow> Inr (v, rest)
      | No_conversion \<Rightarrow> Inl (Fatal (''could not read param file: '' @ what))
      | Outside_model \<Rightarrow> Inl Not_modelled)"

definition read_float :: "string \<Rightarrow> string \<Rightarrow> error + real \<times> string" where
  "read_float what s =
     (case scan_float s of
        Scanned v rest \<Rightarrow> Inr (v, rest)
      | No_conversion \<Rightarrow> Inl (Fatal (''could not read param file: '' @ what))
      | Outside_model \<Rightarrow> Inl Not_modelled)"

definition read_params :: "text_file \<Rightarrow> error + t_param" where
  "read_params paramfile =
     (case snd paramfile of
        None \<Rightarrow> Inl (Fatal (''could not open input parameter file: '' @ fst paramfile))
      | Some s0 \<Rightarrow>
          bind_err (read_int ''nx'' s0) (\<lambda>(v_nx, s1).
          bind_err (read_int ''ny'' s1) (\<lambda>(v_ny, s2).
          bind_err (read_int ''maxIters'' s2) (\<lambda>(v_maxIters, s3).
          bind_err (read_int ''reynolds_dim'' s3) (\<lambda>(v_reynolds_dim, s4).
          bind_err (read_float ''density'' s4) (\<lambda>(v_density, s5).
          bind_err (read_float ''accel'' s5) (\<lambda>(v_accel, s6).
          bind_err (read_float ''omega'' s6) (\<lambda>(v_omega, s7).
          Inr \<lparr>nx = v_nx, ny = v_ny, maxIters = v_maxIters, reynolds_dim = v_reynolds_dim,
               density = v_density, accel = v_accel, omega = v_omega\<rparr>))))))))"

definition init_cell :: "t_param \<Rightarrow> int \<Rightarrow> int \<Rightarrow> t_speed list \<Rightarrow> error + t_speed list" where
  "init_cell p jj ii =
     (let w0 = density p * 4 / 9;
          w1 = density p / 9;
          w2 = density p / 36
      in run_stmts
           [\<lambda>cs. set_speed cs (ii + jj * nx p) 0 w0,
            \<lambda>cs. set_speed cs (ii + jj * nx p) 1 w1,
            \<lambda>cs. set_speed cs (ii + jj * nx p) 2 w1,
            \<lambda>cs. set_speed cs (ii + jj * nx p) 3 w1,
            \<lambda>cs. set_speed cs (ii + jj * nx p) 4 w1,
            \<lambda>cs. set_speed cs (ii + jj * nx p) 5 w2,
            \<lambda>cs. set_speed cs (ii + jj * nx p) 6 w2,
            \<lambda>cs. set_speed cs (ii + jj * nx p) 7 w2,
            \<lambda>cs. set_speed cs (ii + jj * nx p) 8 w2])"

definition init_cells :: "t_param \<Rightarrow> int \<Rightarrow> t_speed list \<Rightarrow> error + t_speed list" where
  \<comment> \<open>\<^verbatim>\<open>for (int jj = 1; jj <= local_ny; jj++) for (int ii = 0; ii < params->nx; ii++)\<close>\<close>
  "init_cells p local_ny = for_loop 1 (local_ny + 1) (\<lambda>jj. for_loop 0 (nx p) (\<lambda>ii. init_cell p jj ii))"

definition zero_obstacles :: "t_param \<Rightarrow> int option list \<Rightarrow> error + int option list" where
  "zero_obstacles p =
     for_loop 0 (ny p) (\<lambda>jj. for_loop 0 (nx p) (\<lambda>ii tot. arr_set tot (ii + jj * nx p) 0))"

text \<open>
  The loop \<^verbatim>\<open>while ((retval = fscanf(fp, "%d %d %d\n", &xx, &yy, &blocked)) != EOF)\<close>:
  \<^verbatim>\<open>fscanf\<close> returns \<^verbatim>\<open>EOF\<close> when only white space is left; anything but three integers
  is fatal.
\<close>

function read_obstacles :: "t_param \<Rightarrow> string \<Rightarrow> int option list \<Rightarrow> error + int option list" where
  "read_obstacles p s tot =
     (if dropWhile is_space s = [] then Inr tot
      else case scan_int s of
        Scanned xx s1 \<Rightarrow>
         (case scan_int s1 of
            Scanned yy s2 \<Rightarrow>
             (case scan_int s2 of
                Scanned blocked s3 \<Rightarrow>
                  if xx < 0 \<or> xx > nx p - 1 then Inl (Fatal ''obstacle x-coord out of range'')
                  else if yy < 0 \<or> yy > ny p - 1 then Inl (Fatal ''obstacle y-coord out of range'')
                  else if blocked \<noteq> 1 then Inl (Fatal ''obstacle blocked value should be 1'')
                  else bind_err (arr_set tot (xx + yy * nx p) blocked) (read_obstacles p s3)
              | _ \<Rightarrow> Inl (Fatal ''expected 3 values per line in obstacle file''))
          | _ \<Rightarrow> Inl (Fatal ''expected 3 values per line in obstacle file''))
      | _ \<Rightarrow> Inl (Fatal ''expected 3 values per line in obstacle file''))"
  by pat_completeness auto

termination
proof (relation "measure (\<lambda>(p, s, tot). length s)")
  show "wf (measure (\<lambda>(p, s, tot). length s))" by simp
next
  have shorter: "length r < length s" if "scan_int s = Scanned v r" for s v r
  proof -
    obtain neg s1 where s1: "scan_sign (dropWhile is_space s) = (neg, s1)"
      by (cases "scan_sign (dropWhile is_space s)")
    have a: "length s1 \<le> length s"
    proof -
      have "length (snd (scan_sign d)) \<le> length d" for d
        by (cases d) (simp_all add: scan_sign_def)
      from this [of "dropWhile is_space s"] have "length s1 \<le> length (dropWhile is_space s)"
        using s1 by simp
      also have "\<dots> \<le> length s" by (rule length_dropWhile_le)
      finally show ?thesis .
    qed
    from that s1 have ne: "takeWhile is_digit s1 \<noteq> []" and r: "r = dropWhile is_digit s1"
      by (auto simp: scan_int_def Let_def split: if_splits)
    have "length (takeWhile is_digit s1) + length (dropWhile is_digit s1) = length s1"
      by (metis length_append takeWhile_dropWhile_id)
    moreover have "0 < length (takeWhile is_digit s1)" using ne by simp
    ultimately have "length (dropWhile is_digit s1) < length s" using a by linarith
    then show ?thesis unfolding r .
  qed
  fix p :: t_param and s :: string and tot :: "int option list" and xx s1 yy s2 blocked s3
    and tot' :: "int option list"
  assume "scan_int s = Scanned xx s1" "scan_int s1 = Scanned yy s2"
    "scan_int s2 = Scanned blocked s3"
  then have "length s3 < length s"
    using shorter [of s xx s1] shorter [of s1 yy s2] shorter [of s2 blocked s3] by linarith
  then show "((p, s3, tot'), (p, s, tot)) \<in> measure (\<lambda>(p, s, tot). length s)" by simp
qed

declare read_obstacles.simps [simp del]

definition copy_obstacles ::
  "t_param \<Rightarrow> int \<Rightarrow> int option list \<Rightarrow> int option list \<Rightarrow> error + int option list" where
  \<comment> \<open>\<^verbatim>\<open>(*obstacles_ptr)[ii + jj*params->nx] = (*obstacles_ptr_total)[ii + jj*params->nx];\<close>\<close>
  "copy_obstacles p local_ny tot =
     for_loop 0 local_ny (\<lambda>jj. for_loop 0 (nx p) (\<lambda>ii ob.
       bind_err (arr_get tot (ii + jj * nx p)) (\<lambda>v. arr_set ob (ii + jj * nx p) v)))"

text \<open>
  \<open>size'\<close> is the number of ranks that \<^verbatim>\<open>MPI_Comm_size\<close> reports. The function has no
  parameter for the rank of the caller. The four halo buffers are allocated without a
  check of the result. \<^verbatim>\<open>params->ny / size\<close> is an integer division, truncated towards
  zero; with no rank it is the error \<open>Division_by_zero\<close>.
\<close>

definition initialise :: "text_file \<Rightarrow> text_file \<Rightarrow> int \<Rightarrow> error + sim_state" where
  "initialise paramfile obstaclefile size' =
     bind_err (read_params paramfile) (\<lambda>p.
     if size' = 0 then Inl Division_by_zero
     else let local_ny = ny p sdiv size' in
     (case malloc ((local_ny + 2) * nx p) Map.empty of
        None \<Rightarrow> Inl (Fatal ''cannot allocate memory for cells'')
      | Some cells0 \<Rightarrow>
     (case malloc ((local_ny + 2) * nx p) Map.empty of
        None \<Rightarrow> Inl (Fatal ''cannot allocate memory for tmp_cells'')
      | Some tmp_cells0 \<Rightarrow>
     (case malloc (ny p * nx p) None of
        None \<Rightarrow> Inl (Fatal ''cannot allocate column memory for obstacles'')
      | Some total0 \<Rightarrow>
     (case malloc (local_ny * nx p) None of
        None \<Rightarrow> Inl (Fatal ''cannot allocate column memory for obstacles'')
      | Some obstacles0 \<Rightarrow>
     (case malloc (maxIters p) None of
        None \<Rightarrow> Inl (Fatal ''Cannot allocate memory for av_vels'')
      | Some av_vels0 \<Rightarrow>
     bind_err (init_cells p local_ny cells0) (\<lambda>cells1.
     bind_err (zero_obstacles p total0) (\<lambda>total1.
     (case snd obstaclefile of
        None \<Rightarrow> Inl (Fatal (''could not open input obstacles file: '' @ fst obstaclefile))
      | Some ts \<Rightarrow>
     bind_err (read_obstacles p ts total1) (\<lambda>total2.
     bind_err (copy_obstacles p local_ny total2 obstacles0) (\<lambda>obstacles1.
     Inr \<lparr>params = p,
          grid = \<lparr>cells = cells1, tmp_cells = tmp_cells0\<rparr>,
          obstacles_total = total2,
          obstacles = obstacles1,
          av_vels = av_vels0,
          send_buff_up = malloc (nx p) None,
          send_buff_dn = malloc (nx p) None,
          recv_buff_up = malloc (nx p) None,
          recv_buff_dn = malloc (nx p) None\<rparr>)))))))))))"

subsection \<open>write\_values\<close>

text \<open>
  A line of \<^verbatim>\<open>final_state.dat\<close> is the tuple of the seven values that \<^verbatim>\<open>fprintf\<close> formats:
  \<open>(ii, jj, u_x, u_y, u, pressure, obstacle flag)\<close>. The output files are taken to open.
\<close>

type_synonym state_line = "int \<times> int \<times> real \<times> real \<times> real \<times> real \<times> int"

definition write_cell ::
  "t_param \<Rightarrow> t_speed list \<Rightarrow> int option list \<Rightarrow> int \<Rightarrow> int \<Rightarrow> state_line list \<Rightarrow> error + state_line list" where
  "write_cell p cs obs jj ii out =
     (let c_sq = 1 / 3
      in bind_err (arr_get obs (ii + jj * nx p)) (\<lambda>ob.
         bind_err
           (if ob \<noteq> 0 then Inr (0, 0, 0, density p * c_sq)
            else bind_err (sum_speeds cs (ii + jj * nx p)) (\<lambda>local_density.
                 bind_err (x_velocity cs (ii + jj * nx p) local_density) (\<lambda>u_x.
                 bind_err (y_velocity cs (ii + jj * nx p) local_density) (\<lambda>u_y.
                 Inr (u_x, u_y, sqrt ((u_x * u_x) + (u_y * u_y)), local_density * c_sq)))))
           (\<lambda>(u_x, u_y, u, pressure).
         bind_err (arr_get obs (ii * nx p + jj)) (\<lambda>flag.
         Inr (out @ [(ii, jj, u_x, u_y, u, pressure, flag)])))))"

definition write_values ::
  "t_param \<Rightarrow> t_speed list \<Rightarrow> int option list \<Rightarrow> real option list
     \<Rightarrow> error + state_line list \<times> (int \<times> real) list" where
  "write_values p cs obs avs =
     bind_err (for_loop 0 (ny p) (\<lambda>jj. for_loop 0 (nx p) (\<lambda>ii. write_cell p cs obs jj ii)) [])
       (\<lambda>final_state.
     bind_err (for_loop 0 (maxIters p)
                 (\<lambda>ii out. bind_err (arr_get avs ii) (\<lambda>v. Inr (out @ [(ii, v)]))) [])
       (\<lambda>av_vels_file.
     Inr (final_state, av_vels_file)))"

subsection \<open>The pull scheme of the specification\<close>

text \<open>
  Not from the source: the cell from which the specification says speed \<open>k\<close> of cell
  \<open>(ii, jj)\<close> is fetched, with periodic wrap in both axes (west is \<open>ii - 1\<close> modulo
  \<open>nx\<close>, south is \<open>jj - 1\<close> modulo \<open>ny\<close>), as an index into the row-major grid.
  propagate is compared with it.
\<close>

definition pull_source :: "t_param \<Rightarrow> nat \<Rightarrow> int \<Rightarrow> int \<Rightarrow> int" where
  "pull_source p k ii jj =
     (let west = (ii - 1) mod nx p; east = (ii + 1) mod nx p;
          south = (jj - 1) mod ny p; north = (jj + 1) mod ny p
      in if k = 0 then ii + jj * nx p
         else if k = 1 then west + jj * nx p
         else if k = 2 then ii + south * nx p
         else if k = 3 then east + jj * nx p
         else if k = 4 then ii + north * nx p
         else if k = 5 then west + south * nx p
         else if k = 6 then east + south * nx p
         else if k = 7 then east + north * nx p
         else west + north * nx p)"

subsection \<open>Example inputs\<close>

text \<open>A two by two grid on one rank, every population of the main grid written.\<close>

definition ex_params :: t_param where
  "ex_params = \<lparr>nx = 2, ny = 2, maxIters = 1, reynolds_dim = 2, density = 1 / 10,
                 accel = 0, omega = 1\<rparr>"

definition ex_grids :: grids where
  "ex_grids = \<lparr>cells = map (\<lambda>i k. if k < 9 then Some (real (10 * i + k)) else None) [0..<4],
               tmp_cells = replicate 4 Map.empty\<rparr>"

definition ex_obstacles :: "int option list" where
  \<comment> \<open>one obstacle, at \<open>(1, 0)\<close>\<close>
  "ex_obstacles = [Some 0, Some 1, Some 0, Some 0]"

definition ex_state :: sim_state where
  "ex_state = \<lparr>params = ex_params, grid = ex_grids, obstacles_total = ex_obstacles,
      obstacles = ex_obstacles, av_vels = [None],
      send_buff_up = None, send_buff_dn = None, recv_buff_up = None, recv_buff_dn = None\<rparr>"

text \<open>The example state as the second iteration of a run of two finds it.\<close>

definition later_state :: sim_state where
  "later_state = ex_state\<lparr>params := ex_params\<lparr>maxIters := 2\<rparr>, av_vels := [Some 0, None]\<rparr>"

text \<open>
  A parameter file for a grid of two columns and three rows with \<open>omega = 3\<close>, and one for
  a grid of one column and two rows.
\<close>

definition bad_paramfile :: text_file where
  "bad_paramfile = (''bad.params'', Some ''2 3 1 2 0.1 0.005 3'')"

definition one_column_paramfile :: text_file where
  "one_column_paramfile = (''one_column.params'', Some ''1 2 1 1 0.1 0.005 1'')"

text \<open>An obstacle file with no line, and one that names the cell \<open>(0, 0)\<close>.\<close>

definition no_obstacles :: text_file where
  "no_obstacles = (''none.dat'', Some [])"

definition corner_obstacle :: text_file where
  "corner_obstacle = (''corner.dat'', Some ''0 0 1'')"

subsection \<open>The rest equilibrium of the specification\<close>

text \<open>
  Not from the source: the population of speed \<open>k\<close> in the rest equilibrium at the
  density of the parameters, \<open>4/9\<close> of it for speed 0, \<open>1/9\<close> for the speeds 1 to 4 and
  \<open>1/36\<close> for the speeds 5 to 8. The grid that initialise returns is compared with it.
\<close>

definition rest_equilibrium :: "t_param \<Rightarrow> nat \<Rightarrow> real" where
  "rest_equilibrium p k =
     (if k = 0 then density p * (4 / 9) else if k \<le> 4 then density p * (1 / 9)
      else density p * (1 / 36))"

text \<open>A parameter file for a grid of one column and three rows.\<close>

definition three_row_paramfile :: text_file where
  "three_row_paramfile = (''three_row.params'', Some ''1 3 1 1 0.1 0.005 1'')"

subsection \<open>The density of the fluid cells\<close>

text \<open>
  Not from the source: the sum of all populations over the fluid cells of a grid, computed
  as total\_density computes the sum over all cells, the cells whose obstacle flag is not
  zero left out. It is the quantity that the specification says the kernels preserve.
\<close>

definition fluid_density :: "t_param \<Rightarrow> int option list \<Rightarrow> t_speed list \<Rightarrow> error + real" where
  "fluid_density p obs cs =
     for_loop 0 (ny p) (\<lambda>jj. for_loop 0 (nx p) (\<lambda>ii total.
       bind_err (arr_get obs (ii + jj * nx p)) (\<lambda>ob.
       if ob \<noteq> 0 then Inr total
       else bind_err (sum_speeds cs (ii + jj * nx p)) (\<lambda>d. Inr (total + d))))) 0"

text \<open>A grid of three columns and two rows, every population of the main grid written.\<close>

definition wide_params :: t_param where
  "wide_params = \<lparr>nx = 3, ny = 2, maxIters = 1, reynolds_dim = 3, density = 1 / 10,
                   accel = 0, omega = 1\<rparr>"

definition wide_grids :: grids where
  "wide_grids = \<lparr>cells = map (\<lambda>i k. if k < 9 then Some (real (10 * i + k)) else None) [0..<6],
                 tmp_cells = replicate 6 Map.empty\<rparr>"

text \<open>
  The speed that rebound copies into speed \<open>m\<close> of an obstacle cell: the one pointing the
  opposite way.
\<close>

definition opposite :: "nat \<Rightarrow> nat" where
  "opposite m = (if m = 1 then 3 else if m = 2 then 4 else if m = 3 then 1 else if m = 4 then 2
                 else if m = 5 then 7 else if m = 6 then 8 else if m = 7 then 5
                 else if m = 8 then 6 else m)"

text \<open>A parameter file with a negative number of columns and of rows.\<close>

definition negative_paramfile :: text_file where
  "negative_paramfile = (''negative.params'', Some ''-1 -3 1 1 0.1 0.005 1'')"

text \<open>
  Parameter files: one that cannot be opened, one with \<^verbatim>\<open>2.5\<close> for \<open>nx\<close>, one with \<open>nx\<close>
  outside the range of \<^verbatim>\<open>int\<close>, one with \<open>nx = -1\<close>, one with \<open>maxIters = -1\<close>, and one with
  negative \<open>nx\<close>, \<open>ny\<close> and \<open>density\<close>, no iteration, no acceleration and \<open>omega = 3\<close>.
\<close>

definition missing_paramfile :: text_file where
  "missing_paramfile = (''missing.params'', None)"


definition wide_int_paramfile :: text_file where
  "wide_int_paramfile = (''wide_int.params'', Some ''4294967298 3 1 2 0.1 0.005 1'')"




section \<open>Properties\<close>

subsection \<open>Sequencing and loops\<close>

lemma bind_err_Inl [simp]: "bind_err (Inl e) f = Inl e"
  by (simp add: bind_err_def)

lemma bind_err_Inr [simp]: "bind_err (Inr x) f = f x"
  by (simp add: bind_err_def)

lemma bind_err_eq_Inr: "bind_err m f = Inr y \<longleftrightarrow> (\<exists>x. m = Inr x \<and> f x = Inr y)"
  by (cases m) simp_all

lemma bind_err_return [simp]: "bind_err m Inr = m"
  by (cases m) simp_all

lemma run_stmts_single [simp]: "run_stmts [c] = c"
  by (rule ext) (simp add: bind_err_def split: sum.splits)

lemma run_stmts_append: "run_stmts (cs @ ds) s = bind_err (run_stmts cs s) (run_stmts ds)"
  by (induction cs arbitrary: s) (simp_all add: bind_err_def split: sum.splits)

lemma run_stmts_Cons_Inr:
  "run_stmts (c # cs) s = Inr s' \<longleftrightarrow> (\<exists>t. c s = Inr t \<and> run_stmts cs t = Inr s')"
  by (simp add: bind_err_eq_Inr)

lemma for_loop_empty [simp]: "hi \<le> lo \<Longrightarrow> for_loop lo hi body s = Inr s"
  by (simp add: for_loop_def)

lemma for_loop_first:
  "lo < hi \<Longrightarrow> for_loop lo hi body s = bind_err (body lo s) (for_loop (lo + 1) hi body)"
proof -
  assume "lo < hi"
  then have "[lo..hi - 1] = lo # [lo + 1..hi - 1]" by (simp add: upto_rec1)
  moreover have "for_loop (lo + 1) hi body = run_stmts (map body [lo + 1..hi - 1])"
    by (rule ext) (simp add: for_loop_def)
  ultimately show ?thesis by (simp add: for_loop_def)
qed

lemma for_loop_last:
  "lo < hi \<Longrightarrow> for_loop lo hi body s = bind_err (for_loop lo (hi - 1) body s) (body (hi - 1))"
proof -
  assume "lo < hi"
  then have "[lo..hi - 1] = [lo..hi - 1 - 1] @ [hi - 1]" by (simp add: upto_rec2)
  then show ?thesis by (simp add: for_loop_def run_stmts_append)
qed

text \<open>An invariant of a loop that returns holds at its end.\<close>

lemma for_loop_invariant:
  assumes run: "for_loop lo hi body s = Inr s'"
    and init: "I lo s"
    and step: "\<And>k t t'. lo \<le> k \<Longrightarrow> k < hi \<Longrightarrow> I k t \<Longrightarrow> body k t = Inr t' \<Longrightarrow> I (k + 1) t'"
  shows "I (max lo hi) s'"
  using run init step
proof (induction "nat (hi - lo)" arbitrary: lo s)
  case 0
  then show ?case by (simp add: max_def)
next
  case (Suc n)
  then have lt: "lo < hi" by linarith
  from Suc.prems(1) lt obtain t
    where t: "body lo s = Inr t" and rest: "for_loop (lo + 1) hi body t = Inr s'"
    by (auto simp: for_loop_first bind_err_eq_Inr)
  have "I (lo + 1) t" using Suc.prems(3) [of lo s t] lt Suc.prems(2) t by simp
  moreover have "n = nat (hi - (lo + 1))" using Suc.hyps(2) by linarith
  ultimately have "I (max (lo + 1) hi) s'"
    using Suc.hyps(1) [of "lo + 1" t] rest Suc.prems(3) by force
  then show ?case using lt by (simp add: max_def)
qed

text \<open>A loop whose body returns under the invariant returns.\<close>

lemma for_loop_total:
  assumes init: "I lo s"
    and step: "\<And>k t. lo \<le> k \<Longrightarrow> k < hi \<Longrightarrow> I k t \<Longrightarrow> \<exists>t'. body k t = Inr t' \<and> I (k + 1) t'"
  shows "\<exists>s'. for_loop lo hi body s = Inr s' \<and> I (max lo hi) s'"
  using init step
proof (induction "nat (hi - lo)" arbitrary: lo s)
  case 0
  then show ?case by (simp add: max_def)
next
  case (Suc n)
  then have lt: "lo < hi" by linarith
  from Suc.prems(2) [of lo s] lt Suc.prems(1) obtain t
    where t: "body lo s = Inr t" and It: "I (lo + 1) t"
    by auto
  have "n = nat (hi - (lo + 1))" using Suc.hyps(2) by linarith
  then have "\<exists>s'. for_loop (lo + 1) hi body t = Inr s' \<and> I (max (lo + 1) hi) s'"
    using Suc.hyps(1) [of "lo + 1" t] It Suc.prems(2) by force
  then show ?case using lt t by (simp add: for_loop_first max_def)
qed

lemma for_loop_fails_first:
  "lo < hi \<Longrightarrow> body lo s = Inl e \<Longrightarrow> for_loop lo hi body s = Inl e"
  by (simp add: for_loop_first)

subsection \<open>Reading and writing populations\<close>

lemma get_speed_Inr:
  "get_speed g i k = Inr v \<longleftrightarrow> 0 \<le> i \<and> i < int (length g) \<and> (g ! nat i) k = Some v"
  by (auto simp: get_speed_def split: option.splits)

lemma set_speed_Inr:
  "set_speed g i k v = Inr g' \<longleftrightarrow>
     0 \<le> i \<and> i < int (length g) \<and> g' = g[nat i := (g ! nat i)(k \<mapsto> v)]"
  by (auto simp: set_speed_def)

lemma get_speed_set_speed:
  assumes "set_speed g i k v = Inr g'"
  shows "get_speed g' j m = (if j = i \<and> m = k then Inr v else get_speed g j m)"
proof -
  from assms have b: "0 \<le> i" "i < int (length g)" and g': "g' = g[nat i := (g ! nat i)(k \<mapsto> v)]"
    by (simp_all add: set_speed_Inr)
  show ?thesis
  proof (cases "j = i")
    case True
    then show ?thesis using b g' by (simp add: get_speed_def)
  next
    case ne: False
    show ?thesis
    proof (cases "0 \<le> j \<and> j < int (length g)")
      case True
      then have "nat j \<noteq> nat i" using ne b by linarith
      then show ?thesis using ne g' by (simp add: get_speed_def)
    next
      case False
      then show ?thesis using ne g' by (auto simp: get_speed_def)
    qed
  qed
qed

lemma length_set_speed: "set_speed g i k v = Inr g' \<Longrightarrow> length g' = length g"
  by (auto simp: set_speed_Inr)

text \<open>Cells of a row-major grid: different coordinates, different indices.\<close>

lemma cell_index_inj:
  fixes a b c d n :: int
  assumes "0 \<le> a" "a < n" "0 \<le> b" "b < n" "a + c * n = b + d * n"
  shows "a = b \<and> c = d"
proof -
  have "(a + c * n) mod n = a" using assms(1,2) by simp
  moreover have "(b + d * n) mod n = b" using assms(3,4) by simp
  ultimately have ab: "a = b" using assms(5) by metis
  then have "c * n = d * n" using assms(5) by simp
  then have "c = d" using assms by simp
  then show ?thesis using ab by simp
qed

subsection \<open>The equilibrium populations\<close>

lemma length_d_equ: "length (d_equ local_density u_x u_y) = 9"
  by (simp add: d_equ_def Let_def)

text \<open>
  Claim C4. For every density and velocity, the nine equilibrium populations of collision
  sum to the density, in exact real arithmetic. (The density need not even be positive.)
\<close>

theorem d_equ_sum: "sum_list (d_equ local_density u_x u_y) = local_density"
  by (simp add: d_equ_def Let_def algebra_simps)

subsection \<open>propagate\<close>

lemma tmp_from_cells_effect:
  assumes "tmp_from_cells dst k src k' g = Inr g'"
  shows "cells g' = cells g"
    and "length (tmp_cells g') = length (tmp_cells g)"
    and "\<exists>v. get_speed (cells g) src k' = Inr v"
    and "get_speed (tmp_cells g') j m =
           (if j = dst \<and> m = k then get_speed (cells g) src k' else get_speed (tmp_cells g) j m)"
proof -
  from assms obtain v t where v: "get_speed (cells g) src k' = Inr v"
    and t: "set_speed (tmp_cells g) dst k v = Inr t" and g': "g' = g\<lparr>tmp_cells := t\<rparr>"
    by (auto simp: tmp_from_cells_def bind_err_eq_Inr)
  show "cells g' = cells g" using g' by simp
  show "length (tmp_cells g') = length (tmp_cells g)" using g' length_set_speed [OF t] by simp
  show "\<exists>v. get_speed (cells g) src k' = Inr v" using v by blast
  show "get_speed (tmp_cells g') j m =
           (if j = dst \<and> m = k then get_speed (cells g) src k' else get_speed (tmp_cells g) j m)"
    using g' v get_speed_set_speed [OF t, of j m] by simp
qed

lemma west_index: "0 \<le> ii \<Longrightarrow> ii < n \<Longrightarrow> (if ii = 0 then ii + n - 1 else ii - 1) = (ii - 1) mod (n::int)"
  by (simp add: zmod_minus1)

lemma small_speed_cases:
  assumes "m < (9::nat)"
  obtains "m = 0" | "m = 1" | "m = 2" | "m = 3" | "m = 4" | "m = 5" | "m = 6" | "m = 7" | "m = 8"
  using assms by linarith

lemma propagate_cell_effect:
  assumes run: "propagate_cell p jj ii g = Inr g'"
    and ii: "0 \<le> ii" "ii < nx p" and jj: "0 \<le> jj" "jj < ny p"
  shows "cells g' = cells g"
    and "length (tmp_cells g') = length (tmp_cells g)"
    and "m < 9 \<Longrightarrow> \<exists>v. get_speed (cells g) (pull_source p m ii jj) m = Inr v"
    and "get_speed (tmp_cells g') j m =
           (if j = ii + jj * nx p \<and> m < 9 then get_speed (cells g) (pull_source p m ii jj) m
            else get_speed (tmp_cells g) j m)"
proof -
  define i where "i = ii + jj * nx p"
  define W where "W = (ii - 1) mod nx p"
  define E where "E = (ii + 1) mod nx p"
  define S where "S = (jj - 1) mod ny p"
  define N where "N = (jj + 1) mod ny p"
  have xw: "(if ii = 0 then ii + nx p - 1 else ii - 1) = W"
    unfolding W_def using ii by (rule west_index)
  have ys: "(if jj = 0 then jj + ny p - 1 else jj - 1) = S"
    unfolding S_def using jj by (rule west_index)
  from run obtain g1 g2 g3 g4 g5 g6 g7 g8 where
    s0: "tmp_from_cells i 0 i 0 g = Inr g1" and
    s1: "tmp_from_cells i 1 (W + jj * nx p) 1 g1 = Inr g2" and
    s2: "tmp_from_cells i 2 (ii + S * nx p) 2 g2 = Inr g3" and
    s3: "tmp_from_cells i 3 (E + jj * nx p) 3 g3 = Inr g4" and
    s4: "tmp_from_cells i 4 (ii + N * nx p) 4 g4 = Inr g5" and
    s5: "tmp_from_cells i 5 (W + S * nx p) 5 g5 = Inr g6" and
    s6: "tmp_from_cells i 6 (E + S * nx p) 6 g6 = Inr g7" and
    s7: "tmp_from_cells i 7 (E + N * nx p) 7 g7 = Inr g8" and
    s8: "tmp_from_cells i 8 (W + N * nx p) 8 g8 = Inr g'"
    unfolding propagate_cell_def Let_def xw ys run_stmts.simps bind_err_eq_Inr
      i_def [symmetric] E_def [symmetric] N_def [symmetric]
    by blast
  note c = tmp_from_cells_effect(1) [OF s0] tmp_from_cells_effect(1) [OF s1]
    tmp_from_cells_effect(1) [OF s2] tmp_from_cells_effect(1) [OF s3]
    tmp_from_cells_effect(1) [OF s4] tmp_from_cells_effect(1) [OF s5]
    tmp_from_cells_effect(1) [OF s6] tmp_from_cells_effect(1) [OF s7]
    tmp_from_cells_effect(1) [OF s8]
  show "cells g' = cells g" using c by simp
  show "length (tmp_cells g') = length (tmp_cells g)"
    using tmp_from_cells_effect(2) [OF s0] tmp_from_cells_effect(2) [OF s1]
    tmp_from_cells_effect(2) [OF s2] tmp_from_cells_effect(2) [OF s3]
    tmp_from_cells_effect(2) [OF s4] tmp_from_cells_effect(2) [OF s5]
    tmp_from_cells_effect(2) [OF s6] tmp_from_cells_effect(2) [OF s7]
    tmp_from_cells_effect(2) [OF s8] by simp
  have src: "pull_source p 0 ii jj = i" "pull_source p 1 ii jj = W + jj * nx p"
    "pull_source p 2 ii jj = ii + S * nx p" "pull_source p 3 ii jj = E + jj * nx p"
    "pull_source p 4 ii jj = ii + N * nx p" "pull_source p 5 ii jj = W + S * nx p"
    "pull_source p 6 ii jj = E + S * nx p" "pull_source p 7 ii jj = E + N * nx p"
    "pull_source p 8 ii jj = W + N * nx p" "pull_source p (Suc 0) ii jj = W + jj * nx p"
    by (simp_all add: pull_source_def i_def W_def E_def S_def N_def)
  have cg: "cells g1 = cells g" "cells g2 = cells g" "cells g3 = cells g" "cells g4 = cells g"
    "cells g5 = cells g" "cells g6 = cells g" "cells g7 = cells g" "cells g8 = cells g"
    using c by simp_all
  show "\<exists>v. get_speed (cells g) (pull_source p m ii jj) m = Inr v" if "m < 9"
    using that
  proof (cases m rule: small_speed_cases)
    case 1 then show ?thesis using tmp_from_cells_effect(3) [OF s0] src by simp
  next
    case 2 then show ?thesis using tmp_from_cells_effect(3) [OF s1] src cg by simp
  next
    case 3 then show ?thesis using tmp_from_cells_effect(3) [OF s2] src cg by simp
  next
    case 4 then show ?thesis using tmp_from_cells_effect(3) [OF s3] src cg by simp
  next
    case 5 then show ?thesis using tmp_from_cells_effect(3) [OF s4] src cg by simp
  next
    case 6 then show ?thesis using tmp_from_cells_effect(3) [OF s5] src cg by simp
  next
    case 7 then show ?thesis using tmp_from_cells_effect(3) [OF s6] src cg by simp
  next
    case 8 then show ?thesis using tmp_from_cells_effect(3) [OF s7] src cg by simp
  next
    case 9 then show ?thesis using tmp_from_cells_effect(3) [OF s8] src cg by simp
  qed
  have chain: "get_speed (tmp_cells g') j m =
     (if j = i \<and> m = 8 then get_speed (cells g) (W + N * nx p) 8
      else if j = i \<and> m = 7 then get_speed (cells g) (E + N * nx p) 7
      else if j = i \<and> m = 6 then get_speed (cells g) (E + S * nx p) 6
      else if j = i \<and> m = 5 then get_speed (cells g) (W + S * nx p) 5
      else if j = i \<and> m = 4 then get_speed (cells g) (ii + N * nx p) 4
      else if j = i \<and> m = 3 then get_speed (cells g) (E + jj * nx p) 3
      else if j = i \<and> m = 2 then get_speed (cells g) (ii + S * nx p) 2
      else if j = i \<and> m = 1 then get_speed (cells g) (W + jj * nx p) 1
      else if j = i \<and> m = 0 then get_speed (cells g) i 0
      else get_speed (tmp_cells g) j m)" for j m
    unfolding tmp_from_cells_effect(4) [OF s8] tmp_from_cells_effect(4) [OF s7]
      tmp_from_cells_effect(4) [OF s6] tmp_from_cells_effect(4) [OF s5]
      tmp_from_cells_effect(4) [OF s4] tmp_from_cells_effect(4) [OF s3]
      tmp_from_cells_effect(4) [OF s2] tmp_from_cells_effect(4) [OF s1]
      tmp_from_cells_effect(4) [OF s0] cg ..
  show "get_speed (tmp_cells g') j m =
           (if j = ii + jj * nx p \<and> m < 9 then get_speed (cells g) (pull_source p m ii jj) m
            else get_speed (tmp_cells g) j m)"
  proof (cases "m < 9")
    case True
    then show ?thesis
      by (cases m rule: small_speed_cases) (simp_all add: chain src i_def [symmetric])
  next
    case False
    then show ?thesis by (simp add: chain)
  qed
qed

lemma cell_coords:
  fixes ii jj n :: int
  assumes "0 \<le> ii" "ii < n"
  shows "(ii + jj * n) mod n = ii" and "(ii + jj * n) div n = jj"
  using assms by simp_all

lemma propagate_row_effect:
  assumes run: "for_loop 0 (nx p) (\<lambda>ii. propagate_cell p jj ii) t = Inr t'"
    and jj: "0 \<le> jj" "jj < ny p"
  shows "cells t' = cells t"
    and "length (tmp_cells t') = length (tmp_cells t)"
    and "\<And>ii m. 0 \<le> ii \<Longrightarrow> ii < nx p \<Longrightarrow> m < 9 \<Longrightarrow>
           \<exists>v. get_speed (cells t) (pull_source p m ii jj) m = Inr v"
    and "\<And>j m. get_speed (tmp_cells t') j m =
           (if (\<exists>ii. 0 \<le> ii \<and> ii < nx p \<and> j = ii + jj * nx p) \<and> m < 9
            then get_speed (cells t) (pull_source p m (j mod nx p) (j div nx p)) m
            else get_speed (tmp_cells t) j m)"
proof -
  define I where "I = (\<lambda>(k::int) (s::grids). cells s = cells t \<and> length (tmp_cells s) = length (tmp_cells t) \<and>
     (\<forall>ii m. 0 \<le> ii \<and> ii < k \<and> m < 9 \<longrightarrow>
         (\<exists>v. get_speed (cells t) (pull_source p m ii jj) m = Inr v)) \<and>
     (\<forall>j m. get_speed (tmp_cells s) j m =
         (if (\<exists>ii. 0 \<le> ii \<and> ii < k \<and> j = ii + jj * nx p) \<and> m < 9
          then get_speed (cells t) (pull_source p m (j mod nx p) (j div nx p)) m
          else get_speed (tmp_cells t) j m)))"
  have init: "I 0 t" by (auto simp: I_def)
  have step: "I (k + 1) s'" if k: "0 \<le> k" "k < nx p" and Ik: "I k s"
    and body: "propagate_cell p jj k s = Inr s'" for k s s'
  proof -
    note eff = propagate_cell_effect [OF body k jj]
    have cs: "cells s = cells t" using Ik by (simp add: I_def)
    have co: "(k + jj * nx p) mod nx p = k" "(k + jj * nx p) div nx p = jj"
      using cell_coords [OF k] by simp_all
    have "cells s' = cells t" using eff(1) cs by simp
    moreover have "length (tmp_cells s') = length (tmp_cells t)"
      using eff(2) Ik by (simp add: I_def)
    moreover have "\<exists>v. get_speed (cells t) (pull_source p m ii jj) m = Inr v"
      if "0 \<le> ii \<and> ii < k + 1 \<and> m < 9" for ii m
    proof (cases "ii = k")
      case True
      then show ?thesis using eff(3) [of m] that cs by simp
    next
      case False
      then have "0 \<le> ii \<and> ii < k \<and> m < 9" using that by simp
      then show ?thesis using Ik unfolding I_def by blast
    qed
    moreover have "get_speed (tmp_cells s') j m =
         (if (\<exists>ii. 0 \<le> ii \<and> ii < k + 1 \<and> j = ii + jj * nx p) \<and> m < 9
          then get_speed (cells t) (pull_source p m (j mod nx p) (j div nx p)) m
          else get_speed (tmp_cells t) j m)" for j m
    proof (cases "j = k + jj * nx p")
      case True
      then have "\<exists>ii. 0 \<le> ii \<and> ii < k + 1 \<and> j = ii + jj * nx p" using k by auto
      then show ?thesis using True eff(4) [of j m] cs co Ik unfolding I_def by simp
    next
      case False
      then have "(\<exists>ii. 0 \<le> ii \<and> ii < k + 1 \<and> j = ii + jj * nx p) \<longleftrightarrow>
          (\<exists>ii. 0 \<le> ii \<and> ii < k \<and> j = ii + jj * nx p)"
        by (metis add.commute add_diff_cancel_left' less_le zle_diff1_eq zless_add1_eq)
      then show ?thesis using False eff(4) [of j m] Ik unfolding I_def by simp
    qed
    ultimately show ?thesis unfolding I_def by blast
  qed
  have fin: "cells t' = cells t \<and> length (tmp_cells t') = length (tmp_cells t) \<and>
     (\<forall>ii m. 0 \<le> ii \<and> ii < nx p \<and> m < 9 \<longrightarrow>
         (\<exists>v. get_speed (cells t) (pull_source p m ii jj) m = Inr v)) \<and>
     (\<forall>j m. get_speed (tmp_cells t') j m =
         (if (\<exists>ii. 0 \<le> ii \<and> ii < nx p \<and> j = ii + jj * nx p) \<and> m < 9
          then get_speed (cells t) (pull_source p m (j mod nx p) (j div nx p)) m
          else get_speed (tmp_cells t) j m))"
  proof (cases "0 < nx p")
    case True
    then have "max 0 (nx p) = nx p" by simp
    then have "I (nx p) t'"
      using for_loop_invariant [where I = I, OF run init step] by simp
    then show ?thesis unfolding I_def .
  next
    case False
    then have "t' = t" using run by simp
    moreover have "\<not> (0 \<le> ii \<and> ii < nx p)" for ii using False by linarith
    ultimately show ?thesis by auto
  qed
  show "cells t' = cells t" using fin by simp
  show "length (tmp_cells t') = length (tmp_cells t)" using fin by simp
  show "\<And>ii m. 0 \<le> ii \<Longrightarrow> ii < nx p \<Longrightarrow> m < 9 \<Longrightarrow>
           \<exists>v. get_speed (cells t) (pull_source p m ii jj) m = Inr v" using fin by blast
  show "\<And>j m. get_speed (tmp_cells t') j m =
           (if (\<exists>ii. 0 \<le> ii \<and> ii < nx p \<and> j = ii + jj * nx p) \<and> m < 9
            then get_speed (cells t) (pull_source p m (j mod nx p) (j div nx p)) m
            else get_speed (tmp_cells t) j m)" using fin by blast
qed

lemma propagate_effect:
  assumes run: "propagate p g = Inr g'"
  shows "cells g' = cells g"
    and "length (tmp_cells g') = length (tmp_cells g)"
    and "\<And>ii jj m. 0 \<le> ii \<Longrightarrow> ii < nx p \<Longrightarrow> 0 \<le> jj \<Longrightarrow> jj < ny p \<Longrightarrow> m < 9 \<Longrightarrow>
           \<exists>v. get_speed (cells g) (pull_source p m ii jj) m = Inr v"
    and "\<And>j m. get_speed (tmp_cells g') j m =
           (if (\<exists>ii jj. 0 \<le> ii \<and> ii < nx p \<and> 0 \<le> jj \<and> jj < ny p \<and> j = ii + jj * nx p) \<and> m < 9
            then get_speed (cells g) (pull_source p m (j mod nx p) (j div nx p)) m
            else get_speed (tmp_cells g) j m)"
proof -
  define J where "J = (\<lambda>(r::int) (s::grids).
     cells s = cells g \<and> length (tmp_cells s) = length (tmp_cells g) \<and>
     (\<forall>ii jj m. 0 \<le> ii \<and> ii < nx p \<and> 0 \<le> jj \<and> jj < r \<and> m < 9 \<longrightarrow>
         (\<exists>v. get_speed (cells g) (pull_source p m ii jj) m = Inr v)) \<and>
     (\<forall>j m. get_speed (tmp_cells s) j m =
         (if (\<exists>ii jj. 0 \<le> ii \<and> ii < nx p \<and> 0 \<le> jj \<and> jj < r \<and> j = ii + jj * nx p) \<and> m < 9
          then get_speed (cells g) (pull_source p m (j mod nx p) (j div nx p)) m
          else get_speed (tmp_cells g) j m)))"
  have init: "J 0 g" by (auto simp: J_def)
  have step: "J (r + 1) s'" if r: "0 \<le> r" "r < ny p" and Jr: "J r s"
    and body: "for_loop 0 (nx p) (\<lambda>ii. propagate_cell p r ii) s = Inr s'" for r s s'
  proof -
    note eff = propagate_row_effect [OF body r]
    have cs: "cells s = cells g" using Jr by (simp add: J_def)
    have "cells s' = cells g" using eff(1) cs by simp
    moreover have "length (tmp_cells s') = length (tmp_cells g)"
      using eff(2) Jr by (simp add: J_def)
    moreover have "\<exists>v. get_speed (cells g) (pull_source p m ii jj) m = Inr v"
      if "0 \<le> ii \<and> ii < nx p \<and> 0 \<le> jj \<and> jj < r + 1 \<and> m < 9" for ii jj m
    proof (cases "jj = r")
      case True
      then show ?thesis using eff(3) [of ii m] that cs by simp
    next
      case False
      then have "0 \<le> ii \<and> ii < nx p \<and> 0 \<le> jj \<and> jj < r \<and> m < 9" using that by simp
      then show ?thesis using Jr unfolding J_def by blast
    qed
    moreover have "get_speed (tmp_cells s') j m =
         (if (\<exists>ii jj. 0 \<le> ii \<and> ii < nx p \<and> 0 \<le> jj \<and> jj < r + 1 \<and> j = ii + jj * nx p) \<and> m < 9
          then get_speed (cells g) (pull_source p m (j mod nx p) (j div nx p)) m
          else get_speed (tmp_cells g) j m)" for j m
    proof (cases "\<exists>ii. 0 \<le> ii \<and> ii < nx p \<and> j = ii + r * nx p")
      case True
      then have "\<exists>ii jj. 0 \<le> ii \<and> ii < nx p \<and> 0 \<le> jj \<and> jj < r + 1 \<and> j = ii + jj * nx p"
        using r by force
      then show ?thesis using True eff(4) [of j m] cs Jr unfolding J_def by simp
    next
      case False
      have "(\<exists>ii jj. 0 \<le> ii \<and> ii < nx p \<and> 0 \<le> jj \<and> jj < r + 1 \<and> j = ii + jj * nx p) \<longleftrightarrow>
          (\<exists>ii jj. 0 \<le> ii \<and> ii < nx p \<and> 0 \<le> jj \<and> jj < r \<and> j = ii + jj * nx p)"
        (is "?L \<longleftrightarrow> ?R")
      proof
        assume ?L
        then obtain ii jj where h: "0 \<le> ii" "ii < nx p" "0 \<le> jj" "jj < r + 1" "j = ii + jj * nx p"
          by blast
        then have "jj \<noteq> r" using False by blast
        then have "jj < r" using h(4) by simp
        then show ?R using h by blast
      next
        assume ?R
        then show ?L by force
      qed
      then have iff: "?L = ?R" .
      have a: "get_speed (tmp_cells s') j m = get_speed (tmp_cells s) j m"
        using eff(4) [of j m] by (simp only: False if_False simp_thms)
      have b: "get_speed (tmp_cells s) j m =
         (if ?R \<and> m < 9
          then get_speed (cells g) (pull_source p m (j mod nx p) (j div nx p)) m
          else get_speed (tmp_cells g) j m)"
        using Jr unfolding J_def by blast
      show ?thesis by (simp only: a b iff)
    qed
    ultimately show ?thesis unfolding J_def by blast
  qed
  have fin: "cells g' = cells g \<and> length (tmp_cells g') = length (tmp_cells g) \<and>
     (\<forall>ii jj m. 0 \<le> ii \<and> ii < nx p \<and> 0 \<le> jj \<and> jj < ny p \<and> m < 9 \<longrightarrow>
         (\<exists>v. get_speed (cells g) (pull_source p m ii jj) m = Inr v)) \<and>
     (\<forall>j m. get_speed (tmp_cells g') j m =
         (if (\<exists>ii jj. 0 \<le> ii \<and> ii < nx p \<and> 0 \<le> jj \<and> jj < ny p \<and> j = ii + jj * nx p) \<and> m < 9
          then get_speed (cells g) (pull_source p m (j mod nx p) (j div nx p)) m
          else get_speed (tmp_cells g) j m))"
  proof (cases "0 < ny p")
    case True
    then have "max 0 (ny p) = ny p" by simp
    then have "J (ny p) g'"
      using for_loop_invariant [where I = J, OF run [unfolded propagate_def] init step] by simp
    then show ?thesis unfolding J_def .
  next
    case False
    then have "g' = g" using run by (simp add: propagate_def)
    moreover have "\<not> (0 \<le> jj \<and> jj < ny p)" for jj using False by linarith
    ultimately show ?thesis by auto
  qed
  show "cells g' = cells g" using fin by simp
  show "length (tmp_cells g') = length (tmp_cells g)" using fin by simp
  show "\<And>ii jj m. 0 \<le> ii \<Longrightarrow> ii < nx p \<Longrightarrow> 0 \<le> jj \<Longrightarrow> jj < ny p \<Longrightarrow> m < 9 \<Longrightarrow>
           \<exists>v. get_speed (cells g) (pull_source p m ii jj) m = Inr v" using fin by blast
  show "\<And>j m. get_speed (tmp_cells g') j m =
           (if (\<exists>ii jj. 0 \<le> ii \<and> ii < nx p \<and> 0 \<le> jj \<and> jj < ny p \<and> j = ii + jj * nx p) \<and> m < 9
            then get_speed (cells g) (pull_source p m (j mod nx p) (j div nx p)) m
            else get_speed (tmp_cells g) j m)" using fin by blast
qed

lemma ex_propagate_returns: "\<exists>g'. propagate ex_params ex_grids = Inr g'"
  by (simp add: propagate_def for_loop_def propagate_cell_def tmp_from_cells_def get_speed_def
      set_speed_def ex_params_def ex_grids_def upto.simps upt_rec)

subsection \<open>Evaluation on the example inputs\<close>

lemmas eval_defs = for_loop_def upto.simps upt_rec get_speed_def set_speed_def arr_get_def
  arr_set_def malloc_def Let_def eval_nat_numeral

lemmas kernel_defs = accelerate_flow_def accelerate_cell_def add_to_speed_def sub_from_speed_def
  propagate_def propagate_cell_def tmp_from_cells_def rebound_def rebound_cell_def
  cells_from_tmp_def collision_def collision_cell_def relax_speed_def sum_speeds_def
  x_velocity_def y_velocity_def fdiv_def d_equ_def av_velocity_def av_velocity_loop_def
  av_velocity_cell_def NSPEEDS_def

lemmas scan_defs = scan_int_def scan_float_def scan_sign_def is_space_def is_digit_def
  digits_val_def digit_val_def to_int_def read_int_def read_float_def

lemma read_params_bad:
  "read_params bad_paramfile = Inr \<lparr>nx = 2, ny = 3, maxIters = 1, reynolds_dim = 2,
     density = 1 / 10, accel = 1 / 200, omega = 3\<rparr>"
  by (simp add: read_params_def bad_paramfile_def scan_defs)

lemma read_params_one_column:
  "read_params one_column_paramfile = Inr \<lparr>nx = 1, ny = 2, maxIters = 1, reynolds_dim = 1,
     density = 1 / 10, accel = 1 / 200, omega = 1\<rparr>"
  by (simp add: read_params_def one_column_paramfile_def scan_defs)

lemma read_params_three_row:
  "read_params three_row_paramfile = Inr \<lparr>nx = 1, ny = 3, maxIters = 1, reynolds_dim = 1,
     density = 1 / 10, accel = 1 / 200, omega = 1\<rparr>"
  by (simp add: read_params_def three_row_paramfile_def scan_defs)

lemmas initialise_defs = initialise_def read_params_bad read_params_one_column
  read_params_three_row no_obstacles_def corner_obstacle_def read_obstacles.simps scan_defs
  init_cells_def init_cell_def zero_obstacles_def copy_obstacles_def signed_divide_int_def

lemmas ex_defs = ex_state_def ex_params_def ex_grids_def ex_obstacles_def

subsection \<open>The order of the substeps\<close>

lemma call_Inr:
  "call tag f ts = Inr ts' \<longleftrightarrow> (\<exists>s'. f (snd ts) = Inr s' \<and> ts' = (fst ts @ [tag], s'))"
  by (auto simp: call_def bind_err_eq_Inr)

lemma timestep_Inr:
  assumes "timestep p obs (tr, g) = Inr (tr', g')"
  shows "tr' = tr @ [Accelerate, Propagate, Rebound, Collide]"
    and "\<exists>g1 g2 g3. accelerate_flow p g obs = Inr g1 \<and> propagate p g1 = Inr g2 \<and>
           rebound p g2 obs = Inr g3 \<and> collision p g3 obs = Inr g'"
  using assms unfolding timestep_def run_stmts.simps bind_err_eq_Inr call_Inr
  by auto

text \<open>
  An iteration of the main loop that returns has run accelerate, propagate, rebound,
  collide and average, in this order and nothing else: propagate works on the grids as
  accelerate returned them, and the grids of the next iteration are the ones collide
  returned.
\<close>

lemma iteration_order:
  assumes "iteration sz tt (tr, s) = Inr (tr', s')"
  shows "tr' = tr @ [Accelerate, Propagate, Rebound, Collide, Average] \<and>
    (\<exists>g1 g2 g3. accelerate_flow (params s) (grid s) (obstacles s) = Inr g1 \<and>
       propagate (params s) g1 = Inr g2 \<and>
       rebound (params s) g2 (obstacles s) = Inr g3 \<and>
       collision (params s) g3 (obstacles s) = Inr (grid s'))"
proof -
  from assms obtain tr1 g1 where
    ts: "timestep (params s) (obstacles s) (tr, grid s) = Inr (tr1, g1)"
    and "tr' = tr1 @ [Average]" and "grid s' = g1"
    by (auto simp: iteration_def Let_def bind_err_eq_Inr)
  then show ?thesis using timestep_Inr [OF ts] by simp
qed

text \<open>
  Claim C2 on a grid of one column and three rows on one rank, as initialise returns it,
  and on the example state in a later iteration. No statement of timestep or of the main
  loop exchanges the ghost rows: the grid that propagate receives is the one accelerate
  returned, row 0 of it is as \<^verbatim>\<open>malloc\<close> left it, and the first read of propagate ends the
  timestep there; the four halo buffers are allocated and never written. Where an
  iteration returns, its substeps are accelerate, propagate, rebound, collide, average.
\<close>

theorem timestep_without_halo_exchange:
  "\<exists>s g1. initialise three_row_paramfile no_obstacles 1 = Inr s \<and>
     accelerate_flow (params s) (grid s) (obstacles s) = Inr g1 \<and>
     get_speed (cells g1) (0 + 1 * nx (params s)) 2 = Inr (1 / 90) \<and>
     get_speed (cells g1) (0 + 0 * nx (params s)) 2 = Inl Uninit_read \<and>
     propagate (params s) g1 = Inl Uninit_read \<and>
     timestep (params s) (obstacles s) ([], grid s) = Inl Uninit_read \<and>
     send_buff_up s = Some [None] \<and> send_buff_dn s = Some [None] \<and>
     recv_buff_up s = Some [None] \<and> recv_buff_dn s = Some [None] \<and>
     (\<exists>s'. iteration 1 1 ([], later_state)
             = Inr ([Accelerate, Propagate, Rebound, Collide, Average], s') \<and>
           send_buff_up s' = send_buff_up later_state \<and>
           recv_buff_dn s' = recv_buff_dn later_state) \<and>
     Halo_exchange \<notin> set [Accelerate, Propagate, Rebound, Collide, Average]"
  by (simp add: initialise_defs iteration_def timestep_def call_def kernel_defs later_state_def
      ex_defs eval_defs)

subsection \<open>The local obstacle mask\<close>

text \<open>
  Claim C6 on a grid of one column and two rows, split over two ranks, with the obstacle
  \<open>(0, 0)\<close>: initialise has no parameter for the rank, and on every rank the local mask
  is row 0 of the global mask. For rank 1 the claim asks for row 1, which is
  \<open>take 1 (drop 1 (obstacles_total s))\<close>.
\<close>

theorem initialise_local_mask_rank_1:
  "\<exists>s. initialise one_column_paramfile corner_obstacle 2 = Inr s \<and>
       obstacles_total s = [Some 1, Some 0] \<and> obstacles s = [Some 1] \<and>
       take 1 (drop 1 (obstacles_total s)) = [Some 0]"
  by (simp add: initialise_defs eval_defs)

subsection \<open>The obstacle flag in the final state file\<close>

text \<open>
  Claim C8 on the example grid, whose only obstacle is the cell \<open>(1, 0)\<close>: the lines of
  write\_values, reduced to \<open>(ii, jj, flag)\<close>, flag the cell \<open>(0, 1)\<close> and not \<open>(1, 0)\<close>.
  The flag printed is \<^verbatim>\<open>obstacles[ii * params.nx + jj]\<close>.
\<close>

theorem write_values_flag_transposed:
  "\<exists>fs avs. write_values ex_params (cells ex_grids) ex_obstacles [Some 0] = Inr (fs, avs) \<and>
     map (\<lambda>(ii, jj, u_x, u_y, u, pressure, flag). (ii, jj, flag)) fs
       = [(0, 0, 0), (1, 0, 0), (0, 1, 1), (1, 1, 0)] \<and>
     arr_get ex_obstacles (1 + 0 * nx ex_params) = Inr 1 \<and>
     arr_get ex_obstacles (0 + 1 * nx ex_params) = Inr 0"
  by (simp add: write_values_def write_cell_def kernel_defs ex_defs eval_defs)

subsection \<open>Loops over the cells of the grid\<close>

text \<open>
  The kernels run \<^verbatim>\<open>for (jj = lo; jj < h; jj++) for (ii = 0; ii < w; ii++)\<close>. An invariant
  \<open>I jj ii\<close> speaks of the state before cell \<open>(ii, jj)\<close> is processed.
\<close>

lemma grid_loop_invariant:
  assumes run: "for_loop lo h (\<lambda>jj. for_loop 0 w (\<lambda>ii. body jj ii)) s = Inr s'"
    and init: "I lo 0 s"
    and step: "\<And>jj ii t t'. lo \<le> jj \<Longrightarrow> jj < h \<Longrightarrow> 0 \<le> ii \<Longrightarrow> ii < w \<Longrightarrow> I jj ii t \<Longrightarrow>
                 body jj ii t = Inr t' \<Longrightarrow> I jj (ii + 1) t'"
    and row: "\<And>jj t. lo \<le> jj \<Longrightarrow> jj < h \<Longrightarrow> I jj (max 0 w) t \<Longrightarrow> I (jj + 1) 0 t"
  shows "I (max lo h) 0 s'"
proof -
  have inner: "I (jj + 1) 0 t'"
    if jj: "lo \<le> jj" "jj < h" and inv: "I jj 0 t"
      and r: "for_loop 0 w (\<lambda>ii. body jj ii) t = Inr t'" for jj t t'
  proof -
    have "I jj (max 0 w) t'"
    proof (rule for_loop_invariant [where I = "I jj", OF r inv])
      fix k u u'
      assume "0 \<le> k" "k < w" "I jj k u" "body jj k u = Inr u'"
      then show "I jj (k + 1) u'" using step [OF jj] by blast
    qed
    then show ?thesis using row [OF jj] by blast
  qed
  show ?thesis
  proof (rule for_loop_invariant [where I = "\<lambda>jj. I jj 0", OF run init])
    fix k t t'
    assume "lo \<le> k" "k < h" "I k 0 t" "for_loop 0 w (\<lambda>ii. body k ii) t = Inr t'"
    then show "I (k + 1) 0 t'" by (rule inner)
  qed
qed

lemma grid_loop_total:
  assumes init: "I lo 0 s"
    and step: "\<And>jj ii t. lo \<le> jj \<Longrightarrow> jj < h \<Longrightarrow> 0 \<le> ii \<Longrightarrow> ii < w \<Longrightarrow> I jj ii t \<Longrightarrow>
                 \<exists>t'. body jj ii t = Inr t' \<and> I jj (ii + 1) t'"
    and row: "\<And>jj t. lo \<le> jj \<Longrightarrow> jj < h \<Longrightarrow> I jj (max 0 w) t \<Longrightarrow> I (jj + 1) 0 t"
  shows "\<exists>s'. for_loop lo h (\<lambda>jj. for_loop 0 w (\<lambda>ii. body jj ii)) s = Inr s' \<and> I (max lo h) 0 s'"
proof -
  have inner: "\<exists>t'. for_loop 0 w (\<lambda>ii. body jj ii) t = Inr t' \<and> I (jj + 1) 0 t'"
    if jj: "lo \<le> jj" "jj < h" and inv: "I jj 0 t" for jj t
  proof -
    have "\<exists>t'. for_loop 0 w (\<lambda>ii. body jj ii) t = Inr t' \<and> I jj (max 0 w) t'"
    proof (rule for_loop_total [where I = "I jj", OF inv])
      fix k u
      assume "0 \<le> k" "k < w" "I jj k u"
      then show "\<exists>t'. body jj k u = Inr t' \<and> I jj (k + 1) t'" using step [OF jj] by blast
    qed
    then show ?thesis using row [OF jj] by blast
  qed
  show ?thesis
  proof (rule for_loop_total [where I = "\<lambda>jj. I jj 0", OF init])
    fix k t
    assume "lo \<le> k" "k < h" "I k 0 t"
    then show "\<exists>t'. for_loop 0 w (\<lambda>ii. body k ii) t = Inr t' \<and> I (k + 1) 0 t'"
      by (rule inner)
  qed
qed

subsection \<open>av\_velocity\<close>

lemma av_velocity_cell_obstacle:
  "arr_get obs (ii + jj * nx p) = Inr v \<Longrightarrow> v \<noteq> 0 \<Longrightarrow> av_velocity_cell p cs obs jj ii acc = Inr acc"
  by (simp add: av_velocity_cell_def)

lemma av_velocity_cell_Inr:
  assumes "av_velocity_cell p cs obs jj ii acc = Inr acc'"
  shows "snd acc \<le> snd acc'"
    and "arr_get obs (ii + jj * nx p) = Inr 0 \<Longrightarrow> snd acc' = snd acc + 1"
  using assms by (auto simp: av_velocity_cell_def bind_err_eq_Inr split: if_splits)

lemma av_velocity_loop_all_obstacles:
  assumes "\<And>ii jj. 0 \<le> ii \<Longrightarrow> ii < nx p \<Longrightarrow> 0 \<le> jj \<Longrightarrow> jj < ny p \<Longrightarrow>
             \<exists>v. arr_get obs (ii + jj * nx p) = Inr v \<and> v \<noteq> 0"
  shows "av_velocity_loop p cs obs = Inr (0, 0)"
proof -
  have "\<exists>s'. av_velocity_loop p cs obs = Inr s' \<and> s' = (0, 0)"
    unfolding av_velocity_loop_def
  proof (rule grid_loop_total [where I = "\<lambda>jj ii acc. acc = (0, 0)"])
    fix jj ii and t :: "real \<times> int"
    assume "0 \<le> jj" "jj < ny p" "0 \<le> ii" "ii < nx p" "t = (0, 0)"
    then show "\<exists>t'. av_velocity_cell p cs obs jj ii t = Inr t' \<and> t' = (0, 0)"
      using assms [of ii jj] av_velocity_cell_obstacle by fastforce
  qed simp_all
  then show ?thesis by simp
qed

lemma av_velocity_loop_counts:
  assumes run: "av_velocity_loop p cs obs = Inr (tot_u, tot_cells)"
    and cell: "0 \<le> ii" "ii < nx p" "0 \<le> jj" "jj < ny p"
    and fluid: "arr_get obs (ii + jj * nx p) = Inr 0"
  shows "0 < tot_cells"
proof -
  define I where "I = (\<lambda>r c (acc :: real \<times> int).
     0 \<le> snd acc \<and> ((jj < r \<or> jj = r \<and> ii < c) \<longrightarrow> 0 < snd acc))"
  have "I (max 0 (ny p)) 0 (tot_u, tot_cells)"
  proof (rule grid_loop_invariant [where I = I, OF run [unfolded av_velocity_loop_def]])
    show "I 0 0 (0, 0)" using cell by (simp add: I_def)
  next
    fix r c t t'
    assume h: "0 \<le> r" "r < ny p" "0 \<le> c" "c < nx p" "I r c t"
      "av_velocity_cell p cs obs r c t = Inr t'"
    note eff = av_velocity_cell_Inr [OF h(6)]
    show "I r (c + 1) t'"
    proof (cases "r = jj \<and> c = ii")
      case True
      then have "snd t' = snd t + 1" using eff(2) fluid by simp
      then show ?thesis using h(5) by (simp add: I_def)
    next
      case False
      then have "(jj < r \<or> jj = r \<and> ii < c + 1) \<longleftrightarrow> (jj < r \<or> jj = r \<and> ii < c)" by auto
      then show ?thesis using h(5) eff(1) unfolding I_def by linarith
    qed
  next
    fix r t
    assume "0 \<le> r" "r < ny p" "I r (max 0 (nx p)) t"
    then show "I (r + 1) 0 t" using cell unfolding I_def by auto
  qed
  then show ?thesis using cell by (simp add: I_def)
qed

text \<open>
  Claim C10. If every cell of the grid is an obstacle, the loop of av\_velocity ends with
  \<open>tot_u = 0\<close> and \<open>tot_cells = 0\<close>, and av\_velocity (hence each entry of av\_vels, and
  calc\_reynolds) is the quotient of zero by zero, which has no value. If some cell of the
  grid is not an obstacle and the loop returns, the divisor \<open>tot_cells\<close> is positive and
  the quotient is the result.
\<close>

theorem av_velocity_divisor:
  "((\<forall>ii jj. 0 \<le> ii \<and> ii < nx p \<and> 0 \<le> jj \<and> jj < ny p \<longrightarrow>
        (\<exists>v. arr_get obs (ii + jj * nx p) = Inr v \<and> v \<noteq> 0)) \<longrightarrow>
     av_velocity_loop p cs obs = Inr (0, 0) \<and>
     av_velocity p cs obs = Inl Division_by_zero \<and>
     calc_reynolds p cs obs = Inl Division_by_zero)
   \<and> (av_velocity_loop p cs obs = Inr (tot_u, tot_cells) \<and>
      0 \<le> ii0 \<and> ii0 < nx p \<and> 0 \<le> jj0 \<and> jj0 < ny p \<and>
      arr_get obs (ii0 + jj0 * nx p) = Inr 0 \<longrightarrow>
     0 < tot_cells \<and> av_velocity p cs obs = Inr (tot_u / real_of_int tot_cells))"
proof (intro conjI impI)
  assume a: "\<forall>ii jj. 0 \<le> ii \<and> ii < nx p \<and> 0 \<le> jj \<and> jj < ny p \<longrightarrow>
        (\<exists>v. arr_get obs (ii + jj * nx p) = Inr v \<and> v \<noteq> 0)"
  then show l: "av_velocity_loop p cs obs = Inr (0, 0)"
    by (intro av_velocity_loop_all_obstacles) blast
  then show av: "av_velocity p cs obs = Inl Division_by_zero"
    by (simp add: av_velocity_def fdiv_def)
  show "calc_reynolds p cs obs = Inl Division_by_zero"
    by (simp add: calc_reynolds_def fdiv_def av Let_def)
next
  assume b: "av_velocity_loop p cs obs = Inr (tot_u, tot_cells) \<and>
      0 \<le> ii0 \<and> ii0 < nx p \<and> 0 \<le> jj0 \<and> jj0 < ny p \<and>
      arr_get obs (ii0 + jj0 * nx p) = Inr 0"
  then show pos: "0 < tot_cells" using av_velocity_loop_counts [of p cs obs tot_u tot_cells ii0 jj0]
    by blast
  then show "av_velocity p cs obs = Inr (tot_u / real_of_int tot_cells)"
    using b by (simp add: av_velocity_def fdiv_def)
qed

lemma ex_av_velocity_loop_returns:
  "\<exists>a. av_velocity_loop ex_params (cells ex_grids) ex_obstacles = Inr a"
  by (simp add: kernel_defs ex_defs eval_defs)

theorem av_velocity_divisor_witness:
  "av_velocity_loop ex_params (cells ex_grids) [Some 1, Some 1, Some 1, Some 1] = Inr (0, 0) \<and>
   av_velocity ex_params (cells ex_grids) [Some 1, Some 1, Some 1, Some 1] = Inl Division_by_zero \<and>
   calc_reynolds ex_params (cells ex_grids) [Some 1, Some 1, Some 1, Some 1] = Inl Division_by_zero \<and>
   (\<exists>tot_u tot_cells.
      av_velocity_loop ex_params (cells ex_grids) ex_obstacles = Inr (tot_u, tot_cells) \<and>
      arr_get ex_obstacles (0 + 0 * nx ex_params) = Inr 0 \<and>
      0 < tot_cells \<and>
      av_velocity ex_params (cells ex_grids) ex_obstacles = Inr (tot_u / real_of_int tot_cells))"
proof -
  have all: "\<forall>ii jj. 0 \<le> ii \<and> ii < nx ex_params \<and> 0 \<le> jj \<and> jj < ny ex_params \<longrightarrow>
        (\<exists>v. arr_get [Some 1, Some 1, Some 1, Some 1] (ii + jj * nx ex_params) = Inr v \<and> v \<noteq> (0::int))"
  proof (intro allI impI)
    fix ii jj :: int
    assume "0 \<le> ii \<and> ii < nx ex_params \<and> 0 \<le> jj \<and> jj < ny ex_params"
    then have "(ii = 0 \<or> ii = 1) \<and> (jj = 0 \<or> jj = 1)" by (auto simp: ex_params_def)
    then show "\<exists>v. arr_get [Some 1, Some 1, Some 1, Some 1] (ii + jj * nx ex_params) = Inr v \<and> v \<noteq> (0::int)"
      by (auto simp: arr_get_def ex_params_def eval_nat_numeral)
  qed
  obtain tot_u tot_cells where
    r: "av_velocity_loop ex_params (cells ex_grids) ex_obstacles = Inr (tot_u, tot_cells)"
    using ex_av_velocity_loop_returns by fastforce
  have f: "arr_get ex_obstacles (0 + 0 * nx ex_params) = Inr 0"
    by (simp add: arr_get_def ex_obstacles_def)
  have c: "0 \<le> (0::int) \<and> 0 < nx ex_params \<and> 0 \<le> (0::int) \<and> 0 < ny ex_params"
    by (simp add: ex_params_def)
  show ?thesis
    using av_velocity_divisor [of ex_params "[Some 1, Some 1, Some 1, Some 1]" "cells ex_grids"]
      av_velocity_divisor [of ex_params ex_obstacles "cells ex_grids" tot_u tot_cells 0 0]
      all r f c by blast
qed

subsection \<open>initialise\<close>

lemma init_cell_effect:
  assumes run: "init_cell p jj ii cs = Inr cs'"
  shows "length cs' = length cs"
    and "get_speed cs' j m =
           (if j = ii + jj * nx p \<and> m < 9 then Inr (rest_equilibrium p m) else get_speed cs j m)"
proof -
  define i where "i = ii + jj * nx p"
  from run obtain c1 c2 c3 c4 c5 c6 c7 c8 where
    s0: "set_speed cs i 0 (density p * 4 / 9) = Inr c1" and
    s1: "set_speed c1 i 1 (density p / 9) = Inr c2" and
    s2: "set_speed c2 i 2 (density p / 9) = Inr c3" and
    s3: "set_speed c3 i 3 (density p / 9) = Inr c4" and
    s4: "set_speed c4 i 4 (density p / 9) = Inr c5" and
    s5: "set_speed c5 i 5 (density p / 36) = Inr c6" and
    s6: "set_speed c6 i 6 (density p / 36) = Inr c7" and
    s7: "set_speed c7 i 7 (density p / 36) = Inr c8" and
    s8: "set_speed c8 i 8 (density p / 36) = Inr cs'"
    unfolding init_cell_def Let_def run_stmts.simps bind_err_eq_Inr i_def [symmetric]
    by blast
  show "length cs' = length cs"
    using length_set_speed [OF s0] length_set_speed [OF s1] length_set_speed [OF s2]
      length_set_speed [OF s3] length_set_speed [OF s4] length_set_speed [OF s5]
      length_set_speed [OF s6] length_set_speed [OF s7] length_set_speed [OF s8] by simp
  have chain: "get_speed cs' j m =
     (if j = i \<and> m = 8 then Inr (density p / 36)
      else if j = i \<and> m = 7 then Inr (density p / 36)
      else if j = i \<and> m = 6 then Inr (density p / 36)
      else if j = i \<and> m = 5 then Inr (density p / 36)
      else if j = i \<and> m = 4 then Inr (density p / 9)
      else if j = i \<and> m = 3 then Inr (density p / 9)
      else if j = i \<and> m = 2 then Inr (density p / 9)
      else if j = i \<and> m = 1 then Inr (density p / 9)
      else if j = i \<and> m = 0 then Inr (density p * 4 / 9)
      else get_speed cs j m)" for j m
    unfolding get_speed_set_speed [OF s8] get_speed_set_speed [OF s7]
      get_speed_set_speed [OF s6] get_speed_set_speed [OF s5] get_speed_set_speed [OF s4]
      get_speed_set_speed [OF s3] get_speed_set_speed [OF s2] get_speed_set_speed [OF s1]
      get_speed_set_speed [OF s0] ..
  show "get_speed cs' j m =
           (if j = ii + jj * nx p \<and> m < 9 then Inr (rest_equilibrium p m) else get_speed cs j m)"
  proof (cases "m < 9")
    case True
    then show ?thesis
      by (cases m rule: small_speed_cases)
        (simp_all add: chain rest_equilibrium_def i_def [symmetric])
  next
    case False
    then show ?thesis by (simp add: chain)
  qed
qed

lemma init_cells_effect:
  assumes run: "init_cells p local_ny cs = Inr cs'"
  shows "length cs' = length cs"
    and "get_speed cs' j m =
           (if (\<exists>ii jj. 0 \<le> ii \<and> ii < nx p \<and> 1 \<le> jj \<and> jj \<le> local_ny \<and> j = ii + jj * nx p) \<and> m < 9
            then Inr (rest_equilibrium p m) else get_speed cs j m)"
proof -
  define I where "I = (\<lambda>r c (t :: t_speed list).
     length t = length cs \<and>
     (\<forall>j m. get_speed t j m =
        (if (\<exists>ii jj. 0 \<le> ii \<and> ii < nx p \<and> 1 \<le> jj \<and> (jj < r \<or> jj = r \<and> ii < c) \<and> j = ii + jj * nx p)
            \<and> m < 9
         then Inr (rest_equilibrium p m) else get_speed cs j m)))"
  have fin: "I (max 1 (local_ny + 1)) 0 cs'"
  proof (rule grid_loop_invariant [where I = I, OF run [unfolded init_cells_def]])
    show "I 1 0 cs" unfolding I_def by auto
  next
    fix r c t t'
    assume h: "1 \<le> r" "r < local_ny + 1" "0 \<le> c" "c < nx p" "I r c t" "init_cell p r c t = Inr t'"
    note eff = init_cell_effect [OF h(6)]
    have "get_speed t' j m =
        (if (\<exists>ii jj. 0 \<le> ii \<and> ii < nx p \<and> 1 \<le> jj \<and> (jj < r \<or> jj = r \<and> ii < c + 1) \<and> j = ii + jj * nx p)
            \<and> m < 9
         then Inr (rest_equilibrium p m) else get_speed cs j m)" for j m
    proof (cases "j = c + r * nx p")
      case True
      then have "\<exists>ii jj. 0 \<le> ii \<and> ii < nx p \<and> 1 \<le> jj \<and> (jj < r \<or> jj = r \<and> ii < c + 1) \<and> j = ii + jj * nx p"
        using h(1-4) by force
      then show ?thesis using True eff(2) [of j m] h(5) unfolding I_def by simp
    next
      case False
      have iff: "(\<exists>ii jj. 0 \<le> ii \<and> ii < nx p \<and> 1 \<le> jj \<and> (jj < r \<or> jj = r \<and> ii < c + 1) \<and> j = ii + jj * nx p)
         = (\<exists>ii jj. 0 \<le> ii \<and> ii < nx p \<and> 1 \<le> jj \<and> (jj < r \<or> jj = r \<and> ii < c) \<and> j = ii + jj * nx p)"
        (is "?L = ?R")
      proof
        assume ?L
        then obtain ii jj where
          k: "0 \<le> ii" "ii < nx p" "1 \<le> jj" "jj < r \<or> jj = r \<and> ii < c + 1" "j = ii + jj * nx p"
          by blast
        then have "\<not> (jj = r \<and> ii = c)" using False by blast
        then have "jj < r \<or> jj = r \<and> ii < c" using k(4) by linarith
        then show ?R using k by blast
      next
        assume ?R
        then show ?L by force
      qed
      have a: "get_speed t' j m = get_speed t j m"
        using eff(2) [of j m] by (simp only: False if_False simp_thms)
      have b: "get_speed t j m =
         (if ?R \<and> m < 9 then Inr (rest_equilibrium p m) else get_speed cs j m)"
        using h(5) unfolding I_def by blast
      show ?thesis by (simp only: a b iff)
    qed
    then show "I r (c + 1) t'" using eff(1) h(5) unfolding I_def by simp
  next
    fix r t
    assume h: "1 \<le> r" "r < local_ny + 1" "I r (max 0 (nx p)) t"
    have "(\<exists>ii jj. 0 \<le> ii \<and> ii < nx p \<and> 1 \<le> jj \<and> (jj < r + 1 \<or> jj = r + 1 \<and> ii < 0) \<and> j = ii + jj * nx p)
       = (\<exists>ii jj. 0 \<le> ii \<and> ii < nx p \<and> 1 \<le> jj \<and> (jj < r \<or> jj = r \<and> ii < max 0 (nx p)) \<and> j = ii + jj * nx p)"
      for j
      by (intro arg_cong [where f = Ex] ext) auto
    then show "I (r + 1) 0 t" using h(3) unfolding I_def by simp
  qed
  have "(\<exists>ii jj. 0 \<le> ii \<and> ii < nx p \<and> 1 \<le> jj \<and>
           (jj < max 1 (local_ny + 1) \<or> jj = max 1 (local_ny + 1) \<and> ii < 0) \<and> j = ii + jj * nx p)
       = (\<exists>ii jj. 0 \<le> ii \<and> ii < nx p \<and> 1 \<le> jj \<and> jj \<le> local_ny \<and> j = ii + jj * nx p)" for j
    by (intro arg_cong [where f = Ex] ext) auto
  then show "length cs' = length cs"
    and "get_speed cs' j m =
           (if (\<exists>ii jj. 0 \<le> ii \<and> ii < nx p \<and> 1 \<le> jj \<and> jj \<le> local_ny \<and> j = ii + jj * nx p) \<and> m < 9
            then Inr (rest_equilibrium p m) else get_speed cs j m)"
    using fin unfolding I_def by simp_all
qed

lemma malloc_Some: "malloc n fresh = Some a \<longleftrightarrow> 0 \<le> n \<and> a = replicate (nat n) fresh"
  by (auto simp: malloc_def)

lemma initialise_Inr:
  assumes "initialise paramfile obstaclefile sz = Inr s"
  shows "\<exists>local_ny total1 ts.
     read_params paramfile = Inr (params s) \<and> sz \<noteq> 0 \<and> local_ny = ny (params s) sdiv sz \<and>
     0 \<le> (local_ny + 2) * nx (params s) \<and> 0 \<le> ny (params s) * nx (params s) \<and>
     0 \<le> local_ny * nx (params s) \<and> 0 \<le> maxIters (params s) \<and>
     init_cells (params s) local_ny (replicate (nat ((local_ny + 2) * nx (params s))) Map.empty)
       = Inr (cells (grid s)) \<and>
     tmp_cells (grid s) = replicate (nat ((local_ny + 2) * nx (params s))) Map.empty \<and>
     zero_obstacles (params s) (replicate (nat (ny (params s) * nx (params s))) None) = Inr total1 \<and>
     snd obstaclefile = Some ts \<and>
     read_obstacles (params s) ts total1 = Inr (obstacles_total s) \<and>
     copy_obstacles (params s) local_ny (obstacles_total s)
         (replicate (nat (local_ny * nx (params s))) None) = Inr (obstacles s) \<and>
     av_vels s = replicate (nat (maxIters (params s))) None"
  using assms unfolding initialise_def Let_def
  by (auto simp: bind_err_eq_Inr malloc_Some split: if_splits option.splits)

lemma get_speed_fresh:
  "0 \<le> j \<Longrightarrow> j < int n \<Longrightarrow> get_speed (replicate n Map.empty) j m = Inl Uninit_read"
  by (simp add: get_speed_def)

lemma initialise_rows:
  assumes init: "initialise paramfile obstaclefile sz = Inr s"
    and ii: "0 \<le> ii" "ii < nx (params s)" and k: "k < 9"
  shows "(\<forall>jj. 1 \<le> jj \<and> jj \<le> ny (params s) sdiv sz \<longrightarrow>
            get_speed (cells (grid s)) (ii + jj * nx (params s)) k
              = Inr (rest_equilibrium (params s) k))
    \<and> get_speed (cells (grid s)) (ii + 0 * nx (params s)) k = Inl Uninit_read
    \<and> get_speed (cells (grid s)) (ii + (ny (params s) sdiv sz + 1) * nx (params s)) k
          = Inl Uninit_read"
proof -
  define p where "p = params s"
  define local_ny where "local_ny = ny p sdiv sz"
  define n where "n = nat ((local_ny + 2) * nx p)"
  from initialise_Inr [OF init] have
    sz: "0 \<le> (local_ny + 2) * nx p" "0 \<le> local_ny * nx p" and
    ic: "init_cells p local_ny (replicate n Map.empty) = Inr (cells (grid s))"
    unfolding p_def local_ny_def n_def by auto
  note eff = init_cells_effect [OF ic]
  have nxp: "0 < nx p" using ii unfolding p_def by simp
  have ln: "0 \<le> local_ny" using sz(2) nxp by (simp add: zero_le_mult_iff)
  have n: "int n = local_ny * nx p + 2 * nx p" using sz(1) unfolding n_def by (simp add: algebra_simps)
  have ii': "0 \<le> ii" "ii < nx p" using ii unfolding p_def by simp_all
  have interior: "get_speed (cells (grid s)) (ii + jj * nx p) k = Inr (rest_equilibrium p k)"
    if "1 \<le> jj \<and> jj \<le> local_ny" for jj
  proof -
    have "\<exists>i j. 0 \<le> i \<and> i < nx p \<and> 1 \<le> j \<and> j \<le> local_ny \<and> ii + jj * nx p = i + j * nx p"
      using that ii' by blast
    then show ?thesis using eff(2) [of "ii + jj * nx p" k] k by simp
  qed
  have ghost: "get_speed (cells (grid s)) (ii + jj * nx p) k = Inl Uninit_read"
    if jj: "jj = 0 \<or> jj = local_ny + 1" for jj
  proof -
    have "\<not> (\<exists>i j. 0 \<le> i \<and> i < nx p \<and> 1 \<le> j \<and> j \<le> local_ny \<and> ii + jj * nx p = i + j * nx p)"
    proof
      assume "\<exists>i j. 0 \<le> i \<and> i < nx p \<and> 1 \<le> j \<and> j \<le> local_ny \<and> ii + jj * nx p = i + j * nx p"
      then obtain i j where
        h: "0 \<le> i" "i < nx p" "1 \<le> j" "j \<le> local_ny" "ii + jj * nx p = i + j * nx p"
        by blast
      have "jj = j" using cell_index_inj [OF ii' h(1,2,5)] by simp
      then show False using jj h(3,4) by linarith
    qed
    then have e: "get_speed (cells (grid s)) (ii + jj * nx p) k
        = get_speed (replicate n Map.empty) (ii + jj * nx p) k"
      using eff(2) [of "ii + jj * nx p" k] by (simp only: if_False simp_thms)
    have "0 \<le> jj * nx p" using jj ln nxp by auto
    then have lo: "0 \<le> ii + jj * nx p" using ii' by linarith
    have "jj * nx p \<le> local_ny * nx p + nx p"
      using jj sz(2) nxp by (auto simp: algebra_simps)
    then have hi: "ii + jj * nx p < int n" using ii' n by linarith
    show ?thesis unfolding e using lo hi by (rule get_speed_fresh)
  qed
  show ?thesis
    using interior ghost [of 0] ghost [of "local_ny + 1"] unfolding p_def local_ny_def by simp
qed

text \<open>
  Claim C5, as amended. After initialise returns, every interior row
  \<open>1 \<le> jj \<le> local_ny\<close> of the main grid holds the rest equilibrium at the density of the
  parameters, and no population of the two ghost rows (row 0 and row \<open>local_ny + 1\<close>) has
  been written: they are as malloc returned them, not zero.
\<close>

theorem initialise_cells:
  assumes init: "initialise paramfile obstaclefile sz = Inr s"
    and ii: "0 \<le> ii" "ii < nx (params s)" and k: "k < 9"
  shows "(\<forall>jj. 1 \<le> jj \<and> jj \<le> ny (params s) sdiv sz \<longrightarrow>
            get_speed (cells (grid s)) (ii + jj * nx (params s)) k
              = Inr (rest_equilibrium (params s) k))
    \<and> get_speed (cells (grid s)) (ii + 0 * nx (params s)) k = Inl Uninit_read
    \<and> get_speed (cells (grid s)) (ii + (ny (params s) sdiv sz + 1) * nx (params s)) k
          = Inl Uninit_read"
  using assms by (rule initialise_rows)

lemma ex_initialise_returns: "\<exists>s. initialise one_column_paramfile no_obstacles 1 = Inr s"
  by (simp add: initialise_defs eval_defs)

theorem initialise_cells_witness:
  "\<exists>s. initialise one_column_paramfile no_obstacles 1 = Inr s \<and>
     nx (params s) = 1 \<and> ny (params s) sdiv 1 = 2 \<and> density (params s) = 1 / 10 \<and>
     get_speed (cells (grid s)) (0 + 1 * nx (params s)) 5 = Inr (rest_equilibrium (params s) 5) \<and>
     get_speed (cells (grid s)) (0 + 2 * nx (params s)) 5 = Inr (rest_equilibrium (params s) 5) \<and>
     rest_equilibrium (params s) 5 = 1 / 360 \<and>
     get_speed (cells (grid s)) (0 + 0 * nx (params s)) 5 = Inl Uninit_read \<and>
     get_speed (cells (grid s)) (0 + (ny (params s) sdiv 1 + 1) * nx (params s)) 5 = Inl Uninit_read"
proof -
  obtain s where s: "initialise one_column_paramfile no_obstacles 1 = Inr s"
    using ex_initialise_returns by blast
  then have "read_params one_column_paramfile = Inr (params s)"
    using initialise_Inr by blast
  then have "params s = \<lparr>nx = 1, ny = 2, maxIters = 1, reynolds_dim = 1, density = 1 / 10,
      accel = 1 / 200, omega = 1\<rparr>"
    by (simp add: read_params_one_column)
  then have p: "nx (params s) = 1" "ny (params s) = 2" "density (params s) = 1 / 10"
    by simp_all
  have r: "rest_equilibrium (params s) 5 = 1 / 360" using p by (simp add: rest_equilibrium_def)
  show ?thesis
    using s p r initialise_cells [OF s, of 0 5] by (intro exI [of _ s]) simp
qed

text \<open>
  Claim C5 as stated fails: in the grid that initialise returns for one column and two
  rows, speed 0 of the cell \<open>(0, 0)\<close> of the south ghost row does not read as zero.
\<close>

theorem initialise_ghost_row_not_zero:
  "\<exists>s. initialise one_column_paramfile no_obstacles 1 = Inr s \<and>
     get_speed (cells (grid s)) (0 + 0 * nx (params s)) 0 \<noteq> Inr 0"
  by (simp add: initialise_defs eval_defs)

subsection \<open>The sum of the populations of a cell\<close>

lemma sum_speeds_unroll:
  "sum_speeds g i =
     bind_err (get_speed g i 0) (\<lambda>v0. bind_err (get_speed g i 1) (\<lambda>v1.
     bind_err (get_speed g i 2) (\<lambda>v2. bind_err (get_speed g i 3) (\<lambda>v3.
     bind_err (get_speed g i 4) (\<lambda>v4. bind_err (get_speed g i 5) (\<lambda>v5.
     bind_err (get_speed g i 6) (\<lambda>v6. bind_err (get_speed g i 7) (\<lambda>v7.
     bind_err (get_speed g i 8) (\<lambda>v8.
     Inr (v0 + v1 + v2 + v3 + v4 + v5 + v6 + v7 + v8))))))))))"
  by (simp add: sum_speeds_def NSPEEDS_def for_loop_def upto.simps bind_err_def
      split: sum.splits)

lemma sum_speeds_cong:
  "(\<And>k. k < 9 \<Longrightarrow> get_speed g i k = get_speed h j k) \<Longrightarrow> sum_speeds g i = sum_speeds h j"
  by (simp add: sum_speeds_unroll)

lemma sum_speeds_Inr:
  "sum_speeds g i = Inr d \<longleftrightarrow>
     (\<exists>v0 v1 v2 v3 v4 v5 v6 v7 v8.
        get_speed g i 0 = Inr v0 \<and> get_speed g i 1 = Inr v1 \<and> get_speed g i 2 = Inr v2 \<and>
        get_speed g i 3 = Inr v3 \<and> get_speed g i 4 = Inr v4 \<and> get_speed g i 5 = Inr v5 \<and>
        get_speed g i 6 = Inr v6 \<and> get_speed g i 7 = Inr v7 \<and> get_speed g i 8 = Inr v8 \<and>
        d = v0 + v1 + v2 + v3 + v4 + v5 + v6 + v7 + v8)"
  unfolding sum_speeds_unroll bind_err_eq_Inr by auto

subsection \<open>accelerate\_flow\<close>

lemma add_to_speed_effect:
  assumes "add_to_speed i k w g = Inr g'"
  shows "tmp_cells g' = tmp_cells g"
    and "\<exists>v. get_speed (cells g) i k = Inr v \<and>
           (\<forall>j m. get_speed (cells g') j m =
              (if j = i \<and> m = k then Inr (v + w) else get_speed (cells g) j m))"
proof -
  from assms obtain v c where v: "get_speed (cells g) i k = Inr v"
    and c: "set_speed (cells g) i k (v + w) = Inr c" and g': "g' = g\<lparr>cells := c\<rparr>"
    by (auto simp: add_to_speed_def bind_err_eq_Inr)
  show "tmp_cells g' = tmp_cells g" using g' by simp
  show "\<exists>v. get_speed (cells g) i k = Inr v \<and>
           (\<forall>j m. get_speed (cells g') j m =
              (if j = i \<and> m = k then Inr (v + w) else get_speed (cells g) j m))"
    using v g' get_speed_set_speed [OF c] by simp
qed

lemma sub_from_speed_effect:
  assumes "sub_from_speed i k w g = Inr g'"
  shows "tmp_cells g' = tmp_cells g"
    and "\<exists>v. get_speed (cells g) i k = Inr v \<and>
           (\<forall>j m. get_speed (cells g') j m =
              (if j = i \<and> m = k then Inr (v - w) else get_speed (cells g) j m))"
proof -
  from assms obtain v c where v: "get_speed (cells g) i k = Inr v"
    and c: "set_speed (cells g) i k (v - w) = Inr c" and g': "g' = g\<lparr>cells := c\<rparr>"
    by (auto simp: sub_from_speed_def bind_err_eq_Inr)
  show "tmp_cells g' = tmp_cells g" using g' by simp
  show "\<exists>v. get_speed (cells g) i k = Inr v \<and>
           (\<forall>j m. get_speed (cells g') j m =
              (if j = i \<and> m = k then Inr (v - w) else get_speed (cells g) j m))"
    using v g' get_speed_set_speed [OF c] by simp
qed

text \<open>A cell of the driven row is left as it is, or its six populations are shifted.\<close>

lemma accelerate_cell_cases:
  assumes run: "accelerate_cell p obs ii g = Inr g'"
  shows "g' = g \<or>
    (tmp_cells g' = tmp_cells g \<and>
     (\<exists>v1 v3 v5 v6 v7 v8.
        get_speed (cells g) (ii + (ny p - 2) * nx p) 1 = Inr v1 \<and>
        get_speed (cells g) (ii + (ny p - 2) * nx p) 3 = Inr v3 \<and>
        get_speed (cells g) (ii + (ny p - 2) * nx p) 5 = Inr v5 \<and>
        get_speed (cells g) (ii + (ny p - 2) * nx p) 6 = Inr v6 \<and>
        get_speed (cells g) (ii + (ny p - 2) * nx p) 7 = Inr v7 \<and>
        get_speed (cells g) (ii + (ny p - 2) * nx p) 8 = Inr v8 \<and>
        (\<forall>j m. get_speed (cells g') j m =
           (if j = ii + (ny p - 2) * nx p \<and> m = 7 then Inr (v7 - density p * accel p / 36)
            else if j = ii + (ny p - 2) * nx p \<and> m = 6 then Inr (v6 - density p * accel p / 36)
            else if j = ii + (ny p - 2) * nx p \<and> m = 3 then Inr (v3 - density p * accel p / 9)
            else if j = ii + (ny p - 2) * nx p \<and> m = 8 then Inr (v8 + density p * accel p / 36)
            else if j = ii + (ny p - 2) * nx p \<and> m = 5 then Inr (v5 + density p * accel p / 36)
            else if j = ii + (ny p - 2) * nx p \<and> m = 1 then Inr (v1 + density p * accel p / 9)
            else get_speed (cells g) j m))))"
proof -
  define i where "i = ii + (ny p - 2) * nx p"
  define w1 where "w1 = density p * accel p / 9"
  define w2 where "w2 = density p * accel p / 36"
  consider (skip) "g' = g"
    | (shift) "run_stmts [add_to_speed i 1 w1, add_to_speed i 5 w2, add_to_speed i 8 w2,
         sub_from_speed i 3 w1, sub_from_speed i 6 w2, sub_from_speed i 7 w2] g = Inr g'"
    using run unfolding accelerate_cell_def Let_def i_def w1_def w2_def
    by (auto simp: bind_err_eq_Inr split: if_splits)
  then show ?thesis
  proof cases
    case skip
    then show ?thesis by simp
  next
    case shift
    then obtain g1 g2 g3 g4 g5 where
      s1: "add_to_speed i 1 w1 g = Inr g1" and
      s2: "add_to_speed i 5 w2 g1 = Inr g2" and
      s3: "add_to_speed i 8 w2 g2 = Inr g3" and
      s4: "sub_from_speed i 3 w1 g3 = Inr g4" and
      s5: "sub_from_speed i 6 w2 g4 = Inr g5" and
      s6: "sub_from_speed i 7 w2 g5 = Inr g'"
      unfolding run_stmts.simps bind_err_eq_Inr by blast
    from add_to_speed_effect(2) [OF s1] obtain v1 where
      v1: "get_speed (cells g) i 1 = Inr v1" and
      e1: "\<And>j m. get_speed (cells g1) j m =
             (if j = i \<and> m = 1 then Inr (v1 + w1) else get_speed (cells g) j m)"
      by blast
    from add_to_speed_effect(2) [OF s2] obtain v5 where
      v5: "get_speed (cells g1) i 5 = Inr v5" and
      e2: "\<And>j m. get_speed (cells g2) j m =
             (if j = i \<and> m = 5 then Inr (v5 + w2) else get_speed (cells g1) j m)"
      by blast
    from add_to_speed_effect(2) [OF s3] obtain v8 where
      v8: "get_speed (cells g2) i 8 = Inr v8" and
      e3: "\<And>j m. get_speed (cells g3) j m =
             (if j = i \<and> m = 8 then Inr (v8 + w2) else get_speed (cells g2) j m)"
      by blast
    from sub_from_speed_effect(2) [OF s4] obtain v3 where
      v3: "get_speed (cells g3) i 3 = Inr v3" and
      e4: "\<And>j m. get_speed (cells g4) j m =
             (if j = i \<and> m = 3 then Inr (v3 - w1) else get_speed (cells g3) j m)"
      by blast
    from sub_from_speed_effect(2) [OF s5] obtain v6 where
      v6: "get_speed (cells g4) i 6 = Inr v6" and
      e5: "\<And>j m. get_speed (cells g5) j m =
             (if j = i \<and> m = 6 then Inr (v6 - w2) else get_speed (cells g4) j m)"
      by blast
    from sub_from_speed_effect(2) [OF s6] obtain v7 where
      v7: "get_speed (cells g5) i 7 = Inr v7" and
      e6: "\<And>j m. get_speed (cells g') j m =
             (if j = i \<and> m = 7 then Inr (v7 - w2) else get_speed (cells g5) j m)"
      by blast
    have t: "tmp_cells g' = tmp_cells g"
      using add_to_speed_effect(1) [OF s1] add_to_speed_effect(1) [OF s2]
        add_to_speed_effect(1) [OF s3] sub_from_speed_effect(1) [OF s4]
        sub_from_speed_effect(1) [OF s5] sub_from_speed_effect(1) [OF s6] by simp
    have r: "get_speed (cells g) i 1 = Inr v1" "get_speed (cells g) i 3 = Inr v3"
      "get_speed (cells g) i 5 = Inr v5" "get_speed (cells g) i 6 = Inr v6"
      "get_speed (cells g) i 7 = Inr v7" "get_speed (cells g) i 8 = Inr v8"
      using v1 v3 v5 v6 v7 v8 by (simp_all add: e1 e2 e3 e4 e5)
    have "get_speed (cells g') j m =
           (if j = i \<and> m = 7 then Inr (v7 - w2)
            else if j = i \<and> m = 6 then Inr (v6 - w2)
            else if j = i \<and> m = 3 then Inr (v3 - w1)
            else if j = i \<and> m = 8 then Inr (v8 + w2)
            else if j = i \<and> m = 5 then Inr (v5 + w2)
            else if j = i \<and> m = 1 then Inr (v1 + w1)
            else get_speed (cells g) j m)" for j m
      unfolding e6 e5 e4 e3 e2 e1 ..
    then show ?thesis using t r unfolding i_def w1_def w2_def by blast
  qed
qed

lemma accelerate_cell_effect:
  assumes run: "accelerate_cell p obs ii g = Inr g'"
  shows "tmp_cells g' = tmp_cells g"
    and "j \<noteq> ii + (ny p - 2) * nx p \<Longrightarrow> get_speed (cells g') j m = get_speed (cells g) j m"
    and "m \<notin> {1, 3, 5, 6, 7, 8} \<Longrightarrow> get_speed (cells g') j m = get_speed (cells g) j m"
    and "sum_speeds (cells g) j = Inr d \<Longrightarrow> sum_speeds (cells g') j = Inr d"
proof -
  note c = accelerate_cell_cases [OF run]
  show "tmp_cells g' = tmp_cells g" using c by auto
  show "get_speed (cells g') j m = get_speed (cells g) j m" if "j \<noteq> ii + (ny p - 2) * nx p"
    using c that by auto
  show "get_speed (cells g') j m = get_speed (cells g) j m" if "m \<notin> {1, 3, 5, 6, 7, 8}"
    using c that by auto
  show "sum_speeds (cells g') j = Inr d" if d: "sum_speeds (cells g) j = Inr d"
  proof (cases "g' = g")
    case True
    then show ?thesis using d by simp
  next
    case False
    define i where "i = ii + (ny p - 2) * nx p"
    define w1 where "w1 = density p * accel p / 9"
    define w2 where "w2 = density p * accel p / 36"
    from c False obtain v1 v3 v5 v6 v7 v8 where
      r: "get_speed (cells g) i 1 = Inr v1" "get_speed (cells g) i 3 = Inr v3"
         "get_speed (cells g) i 5 = Inr v5" "get_speed (cells g) i 6 = Inr v6"
         "get_speed (cells g) i 7 = Inr v7" "get_speed (cells g) i 8 = Inr v8" and
      e: "\<And>j m. get_speed (cells g') j m =
           (if j = i \<and> m = 7 then Inr (v7 - w2)
            else if j = i \<and> m = 6 then Inr (v6 - w2)
            else if j = i \<and> m = 3 then Inr (v3 - w1)
            else if j = i \<and> m = 8 then Inr (v8 + w2)
            else if j = i \<and> m = 5 then Inr (v5 + w2)
            else if j = i \<and> m = 1 then Inr (v1 + w1)
            else get_speed (cells g) j m)"
      unfolding i_def w1_def w2_def by blast
    show ?thesis
    proof (cases "j = i")
      case True
      from d obtain u0 u2 u4 where
        u: "get_speed (cells g) i 0 = Inr u0" "get_speed (cells g) i 2 = Inr u2"
           "get_speed (cells g) i 4 = Inr u4" and
        dd: "d = u0 + v1 + u2 + v3 + u4 + v5 + v6 + v7 + v8"
        unfolding sum_speeds_Inr True using r by auto
      have "sum_speeds (cells g') i =
          Inr (u0 + (v1 + w1) + u2 + (v3 - w1) + u4 + (v5 + w2) + (v6 - w2) + (v7 - w2) + (v8 + w2))"
        unfolding sum_speeds_Inr using u by (simp add: e)
      then show ?thesis using True dd by simp
    next
      case False
      then have "sum_speeds (cells g') j = sum_speeds (cells g) j"
        by (intro sum_speeds_cong) (simp add: e)
      then show ?thesis using d by simp
    qed
  qed
qed

lemma accelerate_flow_effect:
  assumes run: "accelerate_flow p g obs = Inr g'"
  shows "tmp_cells g' = tmp_cells g"
    and "\<not> (\<exists>ii. 0 \<le> ii \<and> ii < nx p \<and> j = ii + (ny p - 2) * nx p) \<Longrightarrow>
           get_speed (cells g') j m = get_speed (cells g) j m"
    and "m \<notin> {1, 3, 5, 6, 7, 8} \<Longrightarrow> get_speed (cells g') j m = get_speed (cells g) j m"
    and "sum_speeds (cells g) j = Inr d \<Longrightarrow> sum_speeds (cells g') j = Inr d"
proof -
  define I where "I = (\<lambda>(k::int) (t::grids). tmp_cells t = tmp_cells g \<and>
     (\<forall>j m. \<not> (\<exists>ii. 0 \<le> ii \<and> ii < nx p \<and> j = ii + (ny p - 2) * nx p) \<longrightarrow>
        get_speed (cells t) j m = get_speed (cells g) j m) \<and>
     (\<forall>j m. m \<notin> {1, 3, 5, 6, 7, 8} \<longrightarrow> get_speed (cells t) j m = get_speed (cells g) j m) \<and>
     (\<forall>j d. sum_speeds (cells g) j = Inr d \<longrightarrow> sum_speeds (cells t) j = Inr d))"
  have "I (max 0 (nx p)) g'"
  proof (rule for_loop_invariant [where I = I, OF run [unfolded accelerate_flow_def]])
    show "I 0 g" by (simp add: I_def)
  next
    fix k t t'
    assume h: "0 \<le> k" "k < nx p" "I k t" "accelerate_cell p obs k t = Inr t'"
    note eff = accelerate_cell_effect [OF h(4)]
    have "get_speed (cells t') j m = get_speed (cells g) j m"
      if "\<not> (\<exists>ii. 0 \<le> ii \<and> ii < nx p \<and> j = ii + (ny p - 2) * nx p)" for j m
    proof -
      have "j \<noteq> k + (ny p - 2) * nx p" using that h(1,2) by blast
      then show ?thesis using eff(2) [of j m] h(3) that unfolding I_def by simp
    qed
    moreover have "get_speed (cells t') j m = get_speed (cells g) j m"
      if "m \<notin> {1, 3, 5, 6, 7, 8}" for j m
      using eff(3) [OF that, of j] h(3) that unfolding I_def by simp
    moreover have "sum_speeds (cells t') j = Inr d" if "sum_speeds (cells g) j = Inr d" for j d
      using eff(4) [of j d] h(3) that unfolding I_def by blast
    ultimately show "I (k + 1) t'" using eff(1) h(3) unfolding I_def by simp
  qed
  then show "tmp_cells g' = tmp_cells g"
    and "\<not> (\<exists>ii. 0 \<le> ii \<and> ii < nx p \<and> j = ii + (ny p - 2) * nx p) \<Longrightarrow>
           get_speed (cells g') j m = get_speed (cells g) j m"
    and "m \<notin> {1, 3, 5, 6, 7, 8} \<Longrightarrow> get_speed (cells g') j m = get_speed (cells g) j m"
    and "sum_speeds (cells g) j = Inr d \<Longrightarrow> sum_speeds (cells g') j = Inr d"
    unfolding I_def by simp_all
qed

subsection \<open>The first propagate\<close>

lemma propagate_first_read:
  assumes "1 \<le> nx p" "1 \<le> ny p" "get_speed (cells g) (0 + 0 * nx p) 0 = Inl e"
  shows "propagate p g = Inl e"
proof -
  have "tmp_from_cells (0 + 0 * nx p) 0 (0 + 0 * nx p) 0 g = Inl e"
    using assms(3) by (simp add: tmp_from_cells_def)
  then have "propagate_cell p 0 0 g = Inl e"
    by (simp add: propagate_cell_def Let_def)
  then have "for_loop 0 (nx p) (\<lambda>ii. propagate_cell p 0 ii) g = Inl e"
    using assms(1) by (intro for_loop_fails_first) simp_all
  then show ?thesis
    unfolding propagate_def
    using assms(2)
      for_loop_fails_first [of 0 "ny p" "\<lambda>jj. for_loop 0 (nx p) (\<lambda>ii. propagate_cell p jj ii)" g e]
    by simp
qed

subsection \<open>Sums over the grid\<close>

lemma sum_nine:
  fixes f :: "nat \<Rightarrow> real"
  shows "(\<Sum>k<9. f k) = f 0 + f 1 + f 2 + f 3 + f 4 + f 5 + f 6 + f 7 + f 8"
  by (simp add: numeral_eq_Suc)

text \<open>A sum over a periodic axis does not change when the axis is shifted.\<close>

lemma sum_shift:
  fixes n c :: int and f :: "int \<Rightarrow> real"
  shows "(\<Sum>i = 0..<n. f ((i + c) mod n)) = (\<Sum>i = 0..<n. f i)"
proof (cases "0 < n")
  case True
  show ?thesis
  proof (rule sum.reindex_bij_witness [where i = "\<lambda>i. (i - c) mod n" and j = "\<lambda>i. (i + c) mod n"])
    fix a assume "a \<in> {0..<n}"
    then show "((a + c) mod n - c) mod n = a" by (simp add: mod_diff_left_eq)
  next
    fix a assume "a \<in> {0..<n}"
    then show "(a + c) mod n \<in> {0..<n}" using True by simp
  next
    fix b assume "b \<in> {0..<n}"
    then show "((b - c) mod n + c) mod n = b" by (simp add: mod_add_left_eq)
  next
    fix b assume "b \<in> {0..<n}"
    then show "(b - c) mod n \<in> {0..<n}" using True by simp
  next
    fix a assume "a \<in> {0..<n}"
    show "f ((a + c) mod n) = f ((a + c) mod n)" by simp
  qed
next
  case False
  then show ?thesis by simp
qed

lemma sum_shift_grid:
  fixes w h a b :: int and F :: "int \<Rightarrow> int \<Rightarrow> real"
  shows "(\<Sum>jj = 0..<h. \<Sum>ii = 0..<w. F ((ii + a) mod w) ((jj + b) mod h))
       = (\<Sum>jj = 0..<h. \<Sum>ii = 0..<w. F ii jj)"
proof -
  have "(\<Sum>jj = 0..<h. \<Sum>ii = 0..<w. F ((ii + a) mod w) ((jj + b) mod h))
      = (\<Sum>jj = 0..<h. \<Sum>ii = 0..<w. F ii ((jj + b) mod h))"
  proof (rule sum.cong [OF refl])
    fix y
    show "(\<Sum>ii = 0..<w. F ((ii + a) mod w) ((y + b) mod h)) = (\<Sum>ii = 0..<w. F ii ((y + b) mod h))"
      by (rule sum_shift [where f = "\<lambda>i. F i ((y + b) mod h)"])
  qed
  also have "\<dots> = (\<Sum>jj = 0..<h. \<Sum>ii = 0..<w. F ii jj)"
    by (rule sum_shift [where f = "\<lambda>y. \<Sum>ii = 0..<w. F ii y"])
  finally show ?thesis .
qed

subsection \<open>total\_density\<close>

lemma total_density_cell:
  "for_loop 0 NSPEEDS
     (\<lambda>kk total. bind_err (get_speed cs i (nat kk)) (\<lambda>v. Inr (total + v))) acc
   = bind_err (sum_speeds cs i) (\<lambda>d. Inr (acc + d))"
  by (simp add: sum_speeds_unroll NSPEEDS_def for_loop_def upto.simps bind_err_def
      split: sum.splits)

lemma total_density_sum:
  assumes "\<And>ii jj. 0 \<le> ii \<Longrightarrow> ii < nx p \<Longrightarrow> 0 \<le> jj \<Longrightarrow> jj < ny p \<Longrightarrow>
             sum_speeds cs (ii + jj * nx p) = Inr (f ii jj)"
  shows "total_density p cs = Inr (\<Sum>jj = 0..<ny p. \<Sum>ii = 0..<nx p. f ii jj)"
proof -
  define I where "I = (\<lambda>r c (acc::real).
     acc = (\<Sum>jj = 0..<r. \<Sum>ii = 0..<nx p. f ii jj) + (\<Sum>ii = 0..<c. f ii r))"
  have "\<exists>m. total_density p cs = Inr m \<and> I (max 0 (ny p)) 0 m"
    unfolding total_density_def total_density_cell
  proof (rule grid_loop_total [where I = I])
    show "I 0 0 0" by (simp add: I_def)
  next
    fix r c t
    assume h: "0 \<le> r" "r < ny p" "0 \<le> c" "c < nx p" "I r c t"
    have "{0..<c + 1} = insert c {0..<c}" using h(3) by auto
    then have "(\<Sum>ii = 0..<c + 1. f ii r) = (\<Sum>ii = 0..<c. f ii r) + f c r" by simp
    then show "\<exists>t'. bind_err (sum_speeds cs (c + r * nx p)) (\<lambda>d. Inr (t + d)) = Inr t' \<and> I r (c + 1) t'"
      using assms [OF h(3,4,1,2)] h(5) by (simp add: I_def)
  next
    fix r t
    assume h: "0 \<le> r" "r < ny p" "I r (max 0 (nx p)) t"
    have "{0..<r + 1} = insert r {0..<r}" using h(1) by auto
    then have "(\<Sum>jj = 0..<r + 1. \<Sum>ii = 0..<nx p. f ii jj)
        = (\<Sum>jj = 0..<r. \<Sum>ii = 0..<nx p. f ii jj) + (\<Sum>ii = 0..<nx p. f ii r)" by simp
    moreover have "(\<Sum>ii = 0..<max 0 (nx p). f ii r) = (\<Sum>ii = 0..<nx p. f ii r)"
      by (cases "0 \<le> nx p") (simp_all add: max_def)
    ultimately show "I (r + 1) 0 t" using h(3) by (simp add: I_def)
  qed
  moreover have "(\<Sum>jj = 0..<max 0 (ny p). \<Sum>ii = 0..<nx p. f ii jj)
      = (\<Sum>jj = 0..<ny p. \<Sum>ii = 0..<nx p. f ii jj)"
    by (cases "0 \<le> ny p") (simp_all add: max_def)
  ultimately show ?thesis by (auto simp: I_def)
qed

subsection \<open>propagate keeps the total density\<close>

text \<open>The upstream cell of every speed is the cell shifted by a fixed step in each axis.\<close>

lemma pull_source_shift:
  "\<exists>A B. \<forall>k<9. \<forall>ii jj. 0 \<le> ii \<and> ii < nx p \<and> 0 \<le> jj \<and> jj < ny p \<longrightarrow>
     pull_source p k ii jj = (ii + A k) mod nx p + ((jj + B k) mod ny p) * nx p"
proof (intro exI allI impI)
  fix k :: nat and ii jj :: int
  let ?A = "\<lambda>k::nat. if k = 1 \<or> k = 5 \<or> k = 8 then - 1 else if k = 3 \<or> k = 6 \<or> k = 7 then 1 else (0::int)"
  let ?B = "\<lambda>k::nat. if k = 2 \<or> k = 5 \<or> k = 6 then - 1 else if k = 4 \<or> k = 7 \<or> k = 8 then 1 else (0::int)"
  assume k: "k < 9" and r: "0 \<le> ii \<and> ii < nx p \<and> 0 \<le> jj \<and> jj < ny p"
  from k show "pull_source p k ii jj = (ii + ?A k) mod nx p + ((jj + ?B k) mod ny p) * nx p"
    by (cases k rule: small_speed_cases) (use r in \<open>simp_all add: pull_source_def\<close>)
qed

lemma propagate_total_density:
  assumes run: "propagate p g = Inr g'"
  shows "\<exists>m. total_density p (cells g) = Inr m \<and> total_density p (tmp_cells g') = Inr m"
proof -
  note eff = propagate_effect [OF run]
  obtain A B where AB: "\<And>k ii jj. k < 9 \<Longrightarrow> 0 \<le> ii \<Longrightarrow> ii < nx p \<Longrightarrow> 0 \<le> jj \<Longrightarrow> jj < ny p \<Longrightarrow>
     pull_source p k ii jj = (ii + A k) mod nx p + ((jj + B k) mod ny p) * nx p"
    using pull_source_shift [of p] by blast
  define F where "F = (\<lambda>k x y. projr (get_speed (cells g) (x + y * nx p) k))"
  have rd: "get_speed (cells g) (x + y * nx p) k = Inr (F k x y)"
    if k: "k < 9" and x: "0 \<le> x" "x < nx p" and y: "0 \<le> y" "y < ny p" for k x y
  proof -
    define ii where "ii = (x - A k) mod nx p"
    define jj where "jj = (y - B k) mod ny p"
    have r: "0 \<le> ii" "ii < nx p" "0 \<le> jj" "jj < ny p"
      using x y unfolding ii_def jj_def by simp_all
    have "(ii + A k) mod nx p = x" "(jj + B k) mod ny p = y"
      using x y unfolding ii_def jj_def by (simp_all add: mod_add_left_eq)
    then have "pull_source p k ii jj = x + y * nx p" using AB [OF k r] by simp
    then obtain v where "get_speed (cells g) (x + y * nx p) k = Inr v"
      using eff(3) [OF r k] by auto
    then show ?thesis by (simp add: F_def)
  qed
  have tm: "get_speed (tmp_cells g') (ii + jj * nx p) k
      = Inr (F k ((ii + A k) mod nx p) ((jj + B k) mod ny p))"
    if k: "k < 9" and r: "0 \<le> ii" "ii < nx p" "0 \<le> jj" "jj < ny p" for k ii jj
  proof -
    have "\<exists>i j. 0 \<le> i \<and> i < nx p \<and> 0 \<le> j \<and> j < ny p \<and> ii + jj * nx p = i + j * nx p"
      using r by blast
    then have "get_speed (tmp_cells g') (ii + jj * nx p) k
        = get_speed (cells g) (pull_source p k ii jj) k"
      using eff(4) [of "ii + jj * nx p" k] cell_coords [OF r(1,2), of jj] k by simp
    also have "\<dots> = get_speed (cells g) ((ii + A k) mod nx p + ((jj + B k) mod ny p) * nx p) k"
      using AB [OF k r] by simp
    also have "\<dots> = Inr (F k ((ii + A k) mod nx p) ((jj + B k) mod ny p))"
      using r by (intro rd k) simp_all
    finally show ?thesis .
  qed
  have "sum_speeds (cells g) (ii + jj * nx p) = Inr (\<Sum>k<9. F k ii jj)"
    if "0 \<le> ii" "ii < nx p" "0 \<le> jj" "jj < ny p" for ii jj
    unfolding sum_speeds_Inr sum_nine using rd that by simp
  then have before: "total_density p (cells g)
      = Inr (\<Sum>jj = 0..<ny p. \<Sum>ii = 0..<nx p. \<Sum>k<9. F k ii jj)"
    by (rule total_density_sum)
  have "sum_speeds (tmp_cells g') (ii + jj * nx p)
      = Inr (\<Sum>k<9. F k ((ii + A k) mod nx p) ((jj + B k) mod ny p))"
    if "0 \<le> ii" "ii < nx p" "0 \<le> jj" "jj < ny p" for ii jj
    unfolding sum_speeds_Inr sum_nine using tm that by simp
  then have after: "total_density p (tmp_cells g')
      = Inr (\<Sum>jj = 0..<ny p. \<Sum>ii = 0..<nx p. \<Sum>k<9.
               F k ((ii + A k) mod nx p) ((jj + B k) mod ny p))"
    by (rule total_density_sum)
  have "(\<Sum>jj = 0..<ny p. \<Sum>ii = 0..<nx p. \<Sum>k<9.
               F k ((ii + A k) mod nx p) ((jj + B k) mod ny p))
      = (\<Sum>k<9. \<Sum>jj = 0..<ny p. \<Sum>ii = 0..<nx p.
               F k ((ii + A k) mod nx p) ((jj + B k) mod ny p))"
    by (simp add: sum.swap [where A = "{..<9}"])
  also have "\<dots> = (\<Sum>k<9. \<Sum>jj = 0..<ny p. \<Sum>ii = 0..<nx p. F k ii jj)"
    by (intro sum.cong refl sum_shift_grid)
  also have "\<dots> = (\<Sum>jj = 0..<ny p. \<Sum>ii = 0..<nx p. \<Sum>k<9. F k ii jj)"
    by (simp add: sum.swap [where A = "{..<9}"])
  finally show ?thesis using before after by simp
qed

subsection \<open>rebound\<close>

lemma cells_from_tmp_effect:
  assumes "cells_from_tmp dst k src k' g = Inr g'"
  shows "tmp_cells g' = tmp_cells g"
    and "j \<noteq> dst \<Longrightarrow> get_speed (cells g') j m = get_speed (cells g) j m"
proof -
  from assms obtain v c where c: "set_speed (cells g) dst k v = Inr c" and g': "g' = g\<lparr>cells := c\<rparr>"
    by (auto simp: cells_from_tmp_def bind_err_eq_Inr)
  show "tmp_cells g' = tmp_cells g" using g' by simp
  show "get_speed (cells g') j m = get_speed (cells g) j m" if "j \<noteq> dst"
    using that g' get_speed_set_speed [OF c, of j m] by simp
qed

lemma rebound_cell_effect:
  assumes run: "rebound_cell p obs jj ii g = Inr g'"
  shows "tmp_cells g' = tmp_cells g"
    and "arr_get obs (ii + jj * nx p) = Inr 0 \<Longrightarrow> g' = g"
    and "j \<noteq> ii + jj * nx p \<Longrightarrow> get_speed (cells g') j m = get_speed (cells g) j m"
proof -
  define i where "i = ii + jj * nx p"
  have i: "jj * nx p + ii = i" by (simp add: i_def)
  consider (fluid) "arr_get obs i = Inr 0" "g' = g"
    | (solid) "arr_get obs i \<noteq> Inr 0"
        "run_stmts [cells_from_tmp i 1 i 3, cells_from_tmp i 2 i 4, cells_from_tmp i 3 i 1,
           cells_from_tmp i 4 i 2, cells_from_tmp i 5 i 7, cells_from_tmp i 6 i 8,
           cells_from_tmp i 7 i 5, cells_from_tmp i 8 i 6] g = Inr g'"
    using run unfolding rebound_cell_def i i_def [symmetric]
    by (auto simp: bind_err_eq_Inr split: if_splits)
  then have "tmp_cells g' = tmp_cells g \<and> (arr_get obs i = Inr 0 \<longrightarrow> g' = g) \<and>
     (j \<noteq> i \<longrightarrow> get_speed (cells g') j m = get_speed (cells g) j m)"
  proof cases
    case fluid
    then show ?thesis by simp
  next
    case solid
    from solid(2) obtain g1 g2 g3 g4 g5 g6 g7 where
      s1: "cells_from_tmp i 1 i 3 g = Inr g1" and
      s2: "cells_from_tmp i 2 i 4 g1 = Inr g2" and
      s3: "cells_from_tmp i 3 i 1 g2 = Inr g3" and
      s4: "cells_from_tmp i 4 i 2 g3 = Inr g4" and
      s5: "cells_from_tmp i 5 i 7 g4 = Inr g5" and
      s6: "cells_from_tmp i 6 i 8 g5 = Inr g6" and
      s7: "cells_from_tmp i 7 i 5 g6 = Inr g7" and
      s8: "cells_from_tmp i 8 i 6 g7 = Inr g'"
      unfolding run_stmts.simps bind_err_eq_Inr by blast
    have "tmp_cells g' = tmp_cells g"
      using cells_from_tmp_effect(1) [OF s1] cells_from_tmp_effect(1) [OF s2]
        cells_from_tmp_effect(1) [OF s3] cells_from_tmp_effect(1) [OF s4]
        cells_from_tmp_effect(1) [OF s5] cells_from_tmp_effect(1) [OF s6]
        cells_from_tmp_effect(1) [OF s7] cells_from_tmp_effect(1) [OF s8] by simp
    moreover have "get_speed (cells g') j m = get_speed (cells g) j m" if "j \<noteq> i"
      using cells_from_tmp_effect(2) [OF s1 that] cells_from_tmp_effect(2) [OF s2 that]
        cells_from_tmp_effect(2) [OF s3 that] cells_from_tmp_effect(2) [OF s4 that]
        cells_from_tmp_effect(2) [OF s5 that] cells_from_tmp_effect(2) [OF s6 that]
        cells_from_tmp_effect(2) [OF s7 that] cells_from_tmp_effect(2) [OF s8 that] by simp
    ultimately show ?thesis using solid(1) by simp
  qed
  then show "tmp_cells g' = tmp_cells g"
    and "arr_get obs (ii + jj * nx p) = Inr 0 \<Longrightarrow> g' = g"
    and "j \<noteq> ii + jj * nx p \<Longrightarrow> get_speed (cells g') j m = get_speed (cells g) j m"
    unfolding i_def by simp_all
qed

text \<open>rebound writes no population of a cell whose obstacle flag is zero.\<close>

lemma rebound_effect:
  assumes run: "rebound p g obs = Inr g'"
  shows "tmp_cells g' = tmp_cells g"
    and "arr_get obs j = Inr 0 \<Longrightarrow> get_speed (cells g') j m = get_speed (cells g) j m"
proof -
  define I where "I = (\<lambda>(r::int) (c::int) (t::grids). tmp_cells t = tmp_cells g \<and>
     (\<forall>j m. arr_get obs j = Inr 0 \<longrightarrow> get_speed (cells t) j m = get_speed (cells g) j m))"
  have "I (max 0 (ny p)) 0 g'"
  proof (rule grid_loop_invariant [where I = I, OF run [unfolded rebound_def]])
    show "I 0 0 g" by (simp add: I_def)
  next
    fix r c t t'
    assume h: "0 \<le> r" "r < ny p" "0 \<le> c" "c < nx p" "I r c t" "rebound_cell p obs r c t = Inr t'"
    note eff = rebound_cell_effect [OF h(6)]
    have "get_speed (cells t') j m = get_speed (cells g) j m" if f: "arr_get obs j = Inr 0" for j m
    proof (cases "j = c + r * nx p")
      case True
      then have "t' = t" using eff(2) f by simp
      then show ?thesis using h(5) f unfolding I_def by simp
    next
      case False
      then show ?thesis using eff(3) [of j m] h(5) f unfolding I_def by simp
    qed
    then show "I r (c + 1) t'" using eff(1) h(5) unfolding I_def by simp
  next
    fix r t
    assume "I r (max 0 (nx p)) t"
    then show "I (r + 1) 0 t" by (simp add: I_def)
  qed
  then show "tmp_cells g' = tmp_cells g"
    and "arr_get obs j = Inr 0 \<Longrightarrow> get_speed (cells g') j m = get_speed (cells g) j m"
    unfolding I_def by simp_all
qed

subsection \<open>collision\<close>

lemma d_equ_nth_sum:
  "d_equ rho u_x u_y ! 0 + d_equ rho u_x u_y ! 1 + d_equ rho u_x u_y ! 2 +
   d_equ rho u_x u_y ! 3 + d_equ rho u_x u_y ! 4 + d_equ rho u_x u_y ! 5 +
   d_equ rho u_x u_y ! 6 + d_equ rho u_x u_y ! 7 + d_equ rho u_x u_y ! 8 = rho"
  by (simp add: d_equ_def Let_def algebra_simps)

lemma relax_speed_effect:
  assumes "relax_speed p i d kk g = Inr g'"
  shows "tmp_cells g' = tmp_cells g"
    and "\<exists>t. get_speed (tmp_cells g) i (nat kk) = Inr t \<and>
           (\<forall>j m. get_speed (cells g') j m =
              (if j = i \<and> m = nat kk then Inr (t + omega p * (d ! nat kk - t))
               else get_speed (cells g) j m))"
proof -
  from assms obtain t c where t: "get_speed (tmp_cells g) i (nat kk) = Inr t"
    and c: "set_speed (cells g) i (nat kk) (t + omega p * (d ! nat kk - t)) = Inr c"
    and g': "g' = g\<lparr>cells := c\<rparr>"
    by (auto simp: relax_speed_def bind_err_eq_Inr)
  show "tmp_cells g' = tmp_cells g" using g' by simp
  show "\<exists>t. get_speed (tmp_cells g) i (nat kk) = Inr t \<and>
           (\<forall>j m. get_speed (cells g') j m =
              (if j = i \<and> m = nat kk then Inr (t + omega p * (d ! nat kk - t))
               else get_speed (cells g) j m))"
    using t g' get_speed_set_speed [OF c] by simp
qed

lemma relax_loop_effect:
  assumes run: "for_loop 0 NSPEEDS (relax_speed p i d) g = Inr g'"
  shows "tmp_cells g' = tmp_cells g"
    and "j \<noteq> i \<Longrightarrow> get_speed (cells g') j m = get_speed (cells g) j m"
    and "sum_speeds (tmp_cells g) i = Inr rho \<Longrightarrow>
           sum_speeds (cells g') i
             = Inr (rho + omega p * (d ! 0 + d ! 1 + d ! 2 + d ! 3 + d ! 4 + d ! 5 + d ! 6 + d ! 7 + d ! 8 - rho))"
proof -
  have "for_loop 0 NSPEEDS (relax_speed p i d) g =
    run_stmts [relax_speed p i d 0, relax_speed p i d 1, relax_speed p i d 2,
      relax_speed p i d 3, relax_speed p i d 4, relax_speed p i d 5,
      relax_speed p i d 6, relax_speed p i d 7, relax_speed p i d 8] g"
    by (simp add: for_loop_def NSPEEDS_def upto.simps)
  then have "run_stmts [relax_speed p i d 0, relax_speed p i d 1, relax_speed p i d 2,
      relax_speed p i d 3, relax_speed p i d 4, relax_speed p i d 5,
      relax_speed p i d 6, relax_speed p i d 7, relax_speed p i d 8] g = Inr g'"
    using run by simp
  then obtain g1 g2 g3 g4 g5 g6 g7 g8 where
    s0: "relax_speed p i d 0 g = Inr g1" and
    s1: "relax_speed p i d 1 g1 = Inr g2" and
    s2: "relax_speed p i d 2 g2 = Inr g3" and
    s3: "relax_speed p i d 3 g3 = Inr g4" and
    s4: "relax_speed p i d 4 g4 = Inr g5" and
    s5: "relax_speed p i d 5 g5 = Inr g6" and
    s6: "relax_speed p i d 6 g6 = Inr g7" and
    s7: "relax_speed p i d 7 g7 = Inr g8" and
    s8: "relax_speed p i d 8 g8 = Inr g'"
    unfolding run_stmts.simps bind_err_eq_Inr by blast
  note tm = relax_speed_effect(1) [OF s0] relax_speed_effect(1) [OF s1]
    relax_speed_effect(1) [OF s2] relax_speed_effect(1) [OF s3] relax_speed_effect(1) [OF s4]
    relax_speed_effect(1) [OF s5] relax_speed_effect(1) [OF s6] relax_speed_effect(1) [OF s7]
    relax_speed_effect(1) [OF s8]
  show t: "tmp_cells g' = tmp_cells g" using tm by simp
  have tg: "tmp_cells g1 = tmp_cells g" "tmp_cells g2 = tmp_cells g" "tmp_cells g3 = tmp_cells g"
    "tmp_cells g4 = tmp_cells g" "tmp_cells g5 = tmp_cells g" "tmp_cells g6 = tmp_cells g"
    "tmp_cells g7 = tmp_cells g" "tmp_cells g8 = tmp_cells g"
    using tm by simp_all
  from relax_speed_effect(2) [OF s0] obtain t0 where
    r0: "get_speed (tmp_cells g) i 0 = Inr t0" and
    e0: "\<And>j m. get_speed (cells g1) j m =
      (if j = i \<and> m = 0 then Inr (t0 + omega p * (d ! 0 - t0)) else get_speed (cells g) j m)"
    by auto
  from relax_speed_effect(2) [OF s1] obtain t1 where
    r1: "get_speed (tmp_cells g) i 1 = Inr t1" and
    e1: "\<And>j m. get_speed (cells g2) j m =
      (if j = i \<and> m = 1 then Inr (t1 + omega p * (d ! 1 - t1)) else get_speed (cells g1) j m)"
    unfolding tg by auto
  from relax_speed_effect(2) [OF s2] obtain t2 where
    r2: "get_speed (tmp_cells g) i 2 = Inr t2" and
    e2: "\<And>j m. get_speed (cells g3) j m =
      (if j = i \<and> m = 2 then Inr (t2 + omega p * (d ! 2 - t2)) else get_speed (cells g2) j m)"
    unfolding tg by auto
  from relax_speed_effect(2) [OF s3] obtain t3 where
    r3: "get_speed (tmp_cells g) i 3 = Inr t3" and
    e3: "\<And>j m. get_speed (cells g4) j m =
      (if j = i \<and> m = 3 then Inr (t3 + omega p * (d ! 3 - t3)) else get_speed (cells g3) j m)"
    unfolding tg by auto
  from relax_speed_effect(2) [OF s4] obtain t4 where
    r4: "get_speed (tmp_cells g) i 4 = Inr t4" and
    e4: "\<And>j m. get_speed (cells g5) j m =
      (if j = i \<and> m = 4 then Inr (t4 + omega p * (d ! 4 - t4)) else get_speed (cells g4) j m)"
    unfolding tg by auto
  from relax_speed_effect(2) [OF s5] obtain t5 where
    r5: "get_speed (tmp_cells g) i 5 = Inr t5" and
    e5: "\<And>j m. get_speed (cells g6) j m =
      (if j = i \<and> m = 5 then Inr (t5 + omega p * (d ! 5 - t5)) else get_speed (cells g5) j m)"
    unfolding tg by auto
  from relax_speed_effect(2) [OF s6] obtain t6 where
    r6: "get_speed (tmp_cells g) i 6 = Inr t6" and
    e6: "\<And>j m. get_speed (cells g7) j m =
      (if j = i \<and> m = 6 then Inr (t6 + omega p * (d ! 6 - t6)) else get_speed (cells g6) j m)"
    unfolding tg by auto
  from relax_speed_effect(2) [OF s7] obtain t7 where
    r7: "get_speed (tmp_cells g) i 7 = Inr t7" and
    e7: "\<And>j m. get_speed (cells g8) j m =
      (if j = i \<and> m = 7 then Inr (t7 + omega p * (d ! 7 - t7)) else get_speed (cells g7) j m)"
    unfolding tg by auto
  from relax_speed_effect(2) [OF s8] obtain t8 where
    r8: "get_speed (tmp_cells g) i 8 = Inr t8" and
    e8: "\<And>j m. get_speed (cells g') j m =
      (if j = i \<and> m = 8 then Inr (t8 + omega p * (d ! 8 - t8)) else get_speed (cells g8) j m)"
    unfolding tg by auto
  show "get_speed (cells g') j m = get_speed (cells g) j m" if "j \<noteq> i"
    using that by (simp add: e8 e7 e6 e5 e4 e3 e2 e1 e0)
  show "sum_speeds (cells g') i
      = Inr (rho + omega p * (d ! 0 + d ! 1 + d ! 2 + d ! 3 + d ! 4 + d ! 5 + d ! 6 + d ! 7 + d ! 8 - rho))"
    if "sum_speeds (tmp_cells g) i = Inr rho"
  proof -
    from that have rho: "rho = t0 + t1 + t2 + t3 + t4 + t5 + t6 + t7 + t8"
      unfolding sum_speeds_Inr using r0 r1 r2 r3 r4 r5 r6 r7 r8 by simp
    have v: "get_speed (cells g') i 0 = Inr (t0 + omega p * (d ! 0 - t0))"
      "get_speed (cells g') i 1 = Inr (t1 + omega p * (d ! 1 - t1))"
      "get_speed (cells g') i 2 = Inr (t2 + omega p * (d ! 2 - t2))"
      "get_speed (cells g') i 3 = Inr (t3 + omega p * (d ! 3 - t3))"
      "get_speed (cells g') i 4 = Inr (t4 + omega p * (d ! 4 - t4))"
      "get_speed (cells g') i 5 = Inr (t5 + omega p * (d ! 5 - t5))"
      "get_speed (cells g') i 6 = Inr (t6 + omega p * (d ! 6 - t6))"
      "get_speed (cells g') i 7 = Inr (t7 + omega p * (d ! 7 - t7))"
      "get_speed (cells g') i 8 = Inr (t8 + omega p * (d ! 8 - t8))"
      by (simp_all add: e8 e7 e6 e5 e4 e3 e2 e1 e0)
    have "sum_speeds (cells g') i =
      Inr (t0 + omega p * (d ! 0 - t0) + (t1 + omega p * (d ! 1 - t1)) +
           (t2 + omega p * (d ! 2 - t2)) + (t3 + omega p * (d ! 3 - t3)) +
           (t4 + omega p * (d ! 4 - t4)) + (t5 + omega p * (d ! 5 - t5)) +
           (t6 + omega p * (d ! 6 - t6)) + (t7 + omega p * (d ! 7 - t7)) +
           (t8 + omega p * (d ! 8 - t8)))"
      by (simp only: sum_speeds_unroll v bind_err_Inr)
    also have "\<dots> = Inr (rho + omega p *
        (d ! 0 + d ! 1 + d ! 2 + d ! 3 + d ! 4 + d ! 5 + d ! 6 + d ! 7 + d ! 8 - rho))"
      unfolding rho by (simp add: algebra_simps)
    finally show ?thesis .
  qed
qed

lemma collision_cell_effect:
  assumes run: "collision_cell p obs jj ii g = Inr g'"
  shows "tmp_cells g' = tmp_cells g"
    and "j \<noteq> ii + jj * nx p \<Longrightarrow> get_speed (cells g') j m = get_speed (cells g) j m"
    and "\<exists>ob. arr_get obs (ii + jj * nx p) = Inr ob"
    and "arr_get obs (ii + jj * nx p) = Inr 0 \<Longrightarrow>
           \<exists>rho. sum_speeds (tmp_cells g) (ii + jj * nx p) = Inr rho \<and>
                 sum_speeds (cells g') (ii + jj * nx p) = Inr rho"
proof -
  define i where "i = ii + jj * nx p"
  consider (solid) ob where "arr_get obs i = Inr ob" "ob \<noteq> 0" "g' = g"
    | (fluid) rho u_x u_y where "arr_get obs i = Inr 0"
        "sum_speeds (tmp_cells g) i = Inr rho"
        "for_loop 0 NSPEEDS (relax_speed p i (d_equ rho u_x u_y)) g = Inr g'"
    using run unfolding collision_cell_def i_def [symmetric]
    by (auto simp: bind_err_eq_Inr split: if_splits)
  then have "tmp_cells g' = tmp_cells g \<and>
     (j \<noteq> i \<longrightarrow> get_speed (cells g') j m = get_speed (cells g) j m) \<and>
     (\<exists>ob. arr_get obs i = Inr ob) \<and>
     (arr_get obs i = Inr 0 \<longrightarrow>
        (\<exists>rho. sum_speeds (tmp_cells g) i = Inr rho \<and> sum_speeds (cells g') i = Inr rho))"
  proof cases
    case solid
    then show ?thesis by simp
  next
    case fluid
    note eff = relax_loop_effect [OF fluid(3)]
    have "sum_speeds (cells g') i = Inr rho"
      using eff(3) [OF fluid(2)] unfolding d_equ_nth_sum by simp
    then show ?thesis using eff(1) eff(2) [of j m] fluid(1,2) by simp
  qed
  then show "tmp_cells g' = tmp_cells g"
    and "j \<noteq> ii + jj * nx p \<Longrightarrow> get_speed (cells g') j m = get_speed (cells g) j m"
    and "\<exists>ob. arr_get obs (ii + jj * nx p) = Inr ob"
    and "arr_get obs (ii + jj * nx p) = Inr 0 \<Longrightarrow>
           \<exists>rho. sum_speeds (tmp_cells g) (ii + jj * nx p) = Inr rho \<and>
                 sum_speeds (cells g') (ii + jj * nx p) = Inr rho"
    unfolding i_def by simp_all
qed

text \<open>
  collision gives every fluid cell of the main grid the sum of populations that the
  scratch cell has.
\<close>

lemma collision_effect:
  assumes run: "collision p g obs = Inr g'"
    and cell: "0 \<le> ii" "ii < nx p" "0 \<le> jj" "jj < ny p"
  shows "tmp_cells g' = tmp_cells g"
    and "\<exists>ob. arr_get obs (ii + jj * nx p) = Inr ob"
    and "arr_get obs (ii + jj * nx p) = Inr 0 \<Longrightarrow>
           \<exists>rho. sum_speeds (tmp_cells g) (ii + jj * nx p) = Inr rho \<and>
                 sum_speeds (cells g') (ii + jj * nx p) = Inr rho"
proof -
  define Q where "Q = (\<lambda>(t::grids) i j.
     (\<exists>ob. arr_get obs (i + j * nx p) = Inr ob) \<and>
     (arr_get obs (i + j * nx p) = Inr 0 \<longrightarrow>
        (\<exists>rho. sum_speeds (tmp_cells g) (i + j * nx p) = Inr rho \<and>
               sum_speeds (cells t) (i + j * nx p) = Inr rho)))"
  define I where "I = (\<lambda>(r::int) (c::int) (t::grids). tmp_cells t = tmp_cells g \<and>
     (\<forall>i j. 0 \<le> i \<and> i < nx p \<and> 0 \<le> j \<and> (j < r \<or> j = r \<and> i < c) \<longrightarrow> Q t i j))"
  have "I (max 0 (ny p)) 0 g'"
  proof (rule grid_loop_invariant [where I = I, OF run [unfolded collision_def]])
    show "I 0 0 g" by (auto simp: I_def)
  next
    fix r c t t'
    assume h: "0 \<le> r" "r < ny p" "0 \<le> c" "c < nx p" "I r c t"
      "collision_cell p obs r c t = Inr t'"
    note eff = collision_cell_effect [OF h(6)]
    have tt: "tmp_cells t = tmp_cells g" using h(5) by (simp add: I_def)
    have "Q t' i j" if a: "0 \<le> i \<and> i < nx p \<and> 0 \<le> j \<and> (j < r \<or> j = r \<and> i < c + 1)" for i j
    proof (cases "i = c \<and> j = r")
      case True
      then show ?thesis using eff(3,4) tt unfolding Q_def by simp
    next
      case False
      then have old: "0 \<le> i \<and> i < nx p \<and> 0 \<le> j \<and> (j < r \<or> j = r \<and> i < c)"
        using a by linarith
      then have q: "Q t i j" using h(5) unfolding I_def by blast
      have "i + j * nx p \<noteq> c + r * nx p"
        using cell_index_inj [of i "nx p" c j r] old h(3,4) False by blast
      then have "sum_speeds (cells t') (i + j * nx p) = sum_speeds (cells t) (i + j * nx p)"
        by (intro sum_speeds_cong) (simp add: eff(2))
      then show ?thesis using q unfolding Q_def by simp
    qed
    then show "I r (c + 1) t'" using eff(1) tt unfolding I_def by simp
  next
    fix r t
    assume a: "I r (max 0 (nx p)) t"
    have "Q t i j" if b: "0 \<le> i \<and> i < nx p \<and> 0 \<le> j \<and> (j < r + 1 \<or> j = r + 1 \<and> i < 0)" for i j
    proof -
      from b have "0 \<le> i \<and> i < nx p \<and> 0 \<le> j \<and> (j < r \<or> j = r \<and> i < max 0 (nx p))"
        by (auto simp: max_def)
      then show ?thesis using a unfolding I_def by blast
    qed
    then show "I (r + 1) 0 t" using a unfolding I_def by blast
  qed
  then have "tmp_cells g' = tmp_cells g \<and> Q g' ii jj"
    using cell unfolding I_def by auto
  then show "tmp_cells g' = tmp_cells g"
    and "\<exists>ob. arr_get obs (ii + jj * nx p) = Inr ob"
    and "arr_get obs (ii + jj * nx p) = Inr 0 \<Longrightarrow>
           \<exists>rho. sum_speeds (tmp_cells g) (ii + jj * nx p) = Inr rho \<and>
                 sum_speeds (cells g') (ii + jj * nx p) = Inr rho"
    unfolding Q_def by simp_all
qed

subsection \<open>The density of the fluid cells\<close>

lemma for_loop_cong:
  assumes "\<And>k s. lo \<le> k \<Longrightarrow> k < hi \<Longrightarrow> f k s = g k s"
  shows "for_loop lo hi f s = for_loop lo hi g s"
proof -
  have "map f [lo..hi - 1] = map g [lo..hi - 1]"
    using assms by (intro map_cong refl ext) simp
  then show ?thesis by (simp only: for_loop_def)
qed

lemma fluid_density_cong:
  assumes "\<And>ii jj. 0 \<le> ii \<Longrightarrow> ii < nx p \<Longrightarrow> 0 \<le> jj \<Longrightarrow> jj < ny p \<Longrightarrow>
             arr_get obs (ii + jj * nx p) = Inr 0 \<Longrightarrow>
             sum_speeds cs (ii + jj * nx p) = sum_speeds cs' (ii + jj * nx p)"
  shows "fluid_density p obs cs = fluid_density p obs cs'"
  unfolding fluid_density_def
proof (intro for_loop_cong)
  fix jj ii and total :: real
  assume r: "0 \<le> jj" "jj < ny p" "0 \<le> ii" "ii < nx p"
  show "bind_err (arr_get obs (ii + jj * nx p)) (\<lambda>ob.
          if ob \<noteq> 0 then Inr total
          else bind_err (sum_speeds cs (ii + jj * nx p)) (\<lambda>d. Inr (total + d)))
      = bind_err (arr_get obs (ii + jj * nx p)) (\<lambda>ob.
          if ob \<noteq> 0 then Inr total
          else bind_err (sum_speeds cs' (ii + jj * nx p)) (\<lambda>d. Inr (total + d)))"
  proof (cases "arr_get obs (ii + jj * nx p)")
    case (Inl e)
    then show ?thesis by simp
  next
    case (Inr ob)
    then show ?thesis using assms [OF r(3,4,1,2)] by (cases "ob = 0") simp_all
  qed
qed

lemma fluid_density_returns:
  assumes "\<And>ii jj. 0 \<le> ii \<Longrightarrow> ii < nx p \<Longrightarrow> 0 \<le> jj \<Longrightarrow> jj < ny p \<Longrightarrow>
             \<exists>ob. arr_get obs (ii + jj * nx p) = Inr ob \<and>
                  (ob = 0 \<longrightarrow> (\<exists>d. sum_speeds cs (ii + jj * nx p) = Inr d))"
  shows "\<exists>m. fluid_density p obs cs = Inr m"
proof -
  have "\<exists>m. fluid_density p obs cs = Inr m \<and> True"
    unfolding fluid_density_def
  proof (rule grid_loop_total [where I = "\<lambda>r c t. True"])
    fix jj ii and t :: real
    assume "0 \<le> jj" "jj < ny p" "0 \<le> ii" "ii < nx p"
    from assms [OF this(3,4,1,2)] show "\<exists>t'. bind_err (arr_get obs (ii + jj * nx p)) (\<lambda>ob.
          if ob \<noteq> 0 then Inr t
          else bind_err (sum_speeds cs (ii + jj * nx p)) (\<lambda>d. Inr (t + d))) = Inr t' \<and> True"
      by auto
  qed simp_all
  then show ?thesis by simp
qed

lemma rebound_fluid_density:
  assumes "rebound p g obs = Inr g'"
  shows "fluid_density p obs (cells g') = fluid_density p obs (cells g)"
  by (intro fluid_density_cong sum_speeds_cong) (rule rebound_effect(2) [OF assms])

lemma collision_fluid_density:
  assumes run: "collision p g obs = Inr g'"
  shows "\<exists>m. fluid_density p obs (tmp_cells g) = Inr m \<and> fluid_density p obs (cells g') = Inr m"
proof -
  have "\<exists>m. fluid_density p obs (tmp_cells g) = Inr m"
  proof (rule fluid_density_returns)
    fix ii jj
    assume r: "0 \<le> ii" "ii < nx p" "0 \<le> jj" "jj < ny p"
    show "\<exists>ob. arr_get obs (ii + jj * nx p) = Inr ob \<and>
              (ob = 0 \<longrightarrow> (\<exists>d. sum_speeds (tmp_cells g) (ii + jj * nx p) = Inr d))"
      using collision_effect(2,3) [OF run r] by auto
  qed
  moreover have "fluid_density p obs (cells g') = fluid_density p obs (tmp_cells g)"
  proof (rule fluid_density_cong)
    fix ii jj
    assume r: "0 \<le> ii" "ii < nx p" "0 \<le> jj" "jj < ny p"
      and f: "arr_get obs (ii + jj * nx p) = Inr 0"
    show "sum_speeds (cells g') (ii + jj * nx p) = sum_speeds (tmp_cells g) (ii + jj * nx p)"
      using collision_effect(3) [OF run r f] by auto
  qed
  ultimately show ?thesis by auto
qed

subsection \<open>What rebound writes\<close>

lemma cells_from_tmp_exact:
  assumes "cells_from_tmp dst k src k' g = Inr g'"
  shows "\<exists>v. get_speed (tmp_cells g) src k' = Inr v \<and>
     (\<forall>j m. get_speed (cells g') j m = (if j = dst \<and> m = k then Inr v else get_speed (cells g) j m))"
proof -
  from assms obtain v c where v: "get_speed (tmp_cells g) src k' = Inr v"
    and c: "set_speed (cells g) dst k v = Inr c" and g': "g' = g\<lparr>cells := c\<rparr>"
    by (auto simp: cells_from_tmp_def bind_err_eq_Inr)
  show ?thesis using v g' get_speed_set_speed [OF c] by simp
qed

lemma rebound_cell_mirror:
  assumes run: "rebound_cell p obs jj ii g = Inr g'"
    and ob: "arr_get obs (ii + jj * nx p) = Inr ob" "ob \<noteq> 0"
  shows "1 \<le> m \<and> m \<le> 8 \<Longrightarrow>
           \<exists>v. get_speed (tmp_cells g) (ii + jj * nx p) (opposite m) = Inr v \<and>
               get_speed (cells g') (ii + jj * nx p) m = Inr v"
    and "m = 0 \<or> 9 \<le> m \<Longrightarrow> get_speed (cells g') j m = get_speed (cells g) j m"
proof -
  define i where "i = ii + jj * nx p"
  have i: "jj * nx p + ii = i" by (simp add: i_def)
  have "run_stmts [cells_from_tmp i 1 i 3, cells_from_tmp i 2 i 4, cells_from_tmp i 3 i 1,
           cells_from_tmp i 4 i 2, cells_from_tmp i 5 i 7, cells_from_tmp i 6 i 8,
           cells_from_tmp i 7 i 5, cells_from_tmp i 8 i 6] g = Inr g'"
    using run ob unfolding rebound_cell_def i i_def [symmetric]
    by (auto simp: bind_err_eq_Inr split: if_splits)
  then obtain g1 g2 g3 g4 g5 g6 g7 where
    s1: "cells_from_tmp i 1 i 3 g = Inr g1" and
    s2: "cells_from_tmp i 2 i 4 g1 = Inr g2" and
    s3: "cells_from_tmp i 3 i 1 g2 = Inr g3" and
    s4: "cells_from_tmp i 4 i 2 g3 = Inr g4" and
    s5: "cells_from_tmp i 5 i 7 g4 = Inr g5" and
    s6: "cells_from_tmp i 6 i 8 g5 = Inr g6" and
    s7: "cells_from_tmp i 7 i 5 g6 = Inr g7" and
    s8: "cells_from_tmp i 8 i 6 g7 = Inr g'"
    unfolding run_stmts.simps bind_err_eq_Inr by blast
  have t: "tmp_cells g1 = tmp_cells g" "tmp_cells g2 = tmp_cells g" "tmp_cells g3 = tmp_cells g"
    "tmp_cells g4 = tmp_cells g" "tmp_cells g5 = tmp_cells g" "tmp_cells g6 = tmp_cells g"
    "tmp_cells g7 = tmp_cells g"
    using cells_from_tmp_effect(1) [OF s1] cells_from_tmp_effect(1) [OF s2]
      cells_from_tmp_effect(1) [OF s3] cells_from_tmp_effect(1) [OF s4]
      cells_from_tmp_effect(1) [OF s5] cells_from_tmp_effect(1) [OF s6]
      cells_from_tmp_effect(1) [OF s7] by simp_all
  from cells_from_tmp_exact [OF s1] obtain v3 where v3: "get_speed (tmp_cells g) i 3 = Inr v3"
    and e1: "\<And>j m. get_speed (cells g1) j m = (if j = i \<and> m = 1 then Inr v3 else get_speed (cells g) j m)"
    by blast
  from cells_from_tmp_exact [OF s2] obtain v4 where v4: "get_speed (tmp_cells g) i 4 = Inr v4"
    and e2: "\<And>j m. get_speed (cells g2) j m = (if j = i \<and> m = 2 then Inr v4 else get_speed (cells g1) j m)"
    unfolding t by blast
  from cells_from_tmp_exact [OF s3] obtain v1 where v1: "get_speed (tmp_cells g) i 1 = Inr v1"
    and e3: "\<And>j m. get_speed (cells g3) j m = (if j = i \<and> m = 3 then Inr v1 else get_speed (cells g2) j m)"
    unfolding t by blast
  from cells_from_tmp_exact [OF s4] obtain v2 where v2: "get_speed (tmp_cells g) i 2 = Inr v2"
    and e4: "\<And>j m. get_speed (cells g4) j m = (if j = i \<and> m = 4 then Inr v2 else get_speed (cells g3) j m)"
    unfolding t by blast
  from cells_from_tmp_exact [OF s5] obtain v7 where v7: "get_speed (tmp_cells g) i 7 = Inr v7"
    and e5: "\<And>j m. get_speed (cells g5) j m = (if j = i \<and> m = 5 then Inr v7 else get_speed (cells g4) j m)"
    unfolding t by blast
  from cells_from_tmp_exact [OF s6] obtain v8 where v8: "get_speed (tmp_cells g) i 8 = Inr v8"
    and e6: "\<And>j m. get_speed (cells g6) j m = (if j = i \<and> m = 6 then Inr v8 else get_speed (cells g5) j m)"
    unfolding t by blast
  from cells_from_tmp_exact [OF s7] obtain v5 where v5: "get_speed (tmp_cells g) i 5 = Inr v5"
    and e7: "\<And>j m. get_speed (cells g7) j m = (if j = i \<and> m = 7 then Inr v5 else get_speed (cells g6) j m)"
    unfolding t by blast
  from cells_from_tmp_exact [OF s8] obtain v6 where v6: "get_speed (tmp_cells g) i 6 = Inr v6"
    and e8: "\<And>j m. get_speed (cells g') j m = (if j = i \<and> m = 8 then Inr v6 else get_speed (cells g7) j m)"
    unfolding t by blast
  have chain: "get_speed (cells g') j m =
     (if j = i \<and> m = 8 then Inr v6 else if j = i \<and> m = 7 then Inr v5
      else if j = i \<and> m = 6 then Inr v8 else if j = i \<and> m = 5 then Inr v7
      else if j = i \<and> m = 4 then Inr v2 else if j = i \<and> m = 3 then Inr v1
      else if j = i \<and> m = 2 then Inr v4 else if j = i \<and> m = 1 then Inr v3
      else get_speed (cells g) j m)" for j m
    unfolding e8 e7 e6 e5 e4 e3 e2 e1 ..
  show "\<exists>v. get_speed (tmp_cells g) (ii + jj * nx p) (opposite m) = Inr v \<and>
               get_speed (cells g') (ii + jj * nx p) m = Inr v" if "1 \<le> m \<and> m \<le> 8"
  proof -
    from that have "m < 9" by simp
    then show ?thesis unfolding i_def [symmetric]
      using that by (cases m rule: small_speed_cases)
        (simp_all add: chain opposite_def v1 [simplified] v2 v3 v4 v5 v6 v7 v8)
  qed
  show "get_speed (cells g') j m = get_speed (cells g) j m" if "m = 0 \<or> 9 \<le> m"
    using that by (auto simp: chain)
qed

lemma rebound_mirror:
  assumes run: "rebound p g obs = Inr g'"
  shows "0 \<le> ii \<and> ii < nx p \<and> 0 \<le> jj \<and> jj < ny p \<and>
         arr_get obs (ii + jj * nx p) = Inr ob \<and> ob \<noteq> 0 \<and> 1 \<le> m \<and> m \<le> 8 \<Longrightarrow>
           \<exists>v. get_speed (tmp_cells g) (ii + jj * nx p) (opposite m) = Inr v \<and>
               get_speed (cells g') (ii + jj * nx p) m = Inr v"
    and "m = 0 \<or> 9 \<le> m \<Longrightarrow> get_speed (cells g') j m = get_speed (cells g) j m"
proof -
  define I where "I = (\<lambda>(r::int) (c::int) (t::grids). tmp_cells t = tmp_cells g \<and>
     (\<forall>j m. m = 0 \<or> 9 \<le> m \<longrightarrow> get_speed (cells t) j m = get_speed (cells g) j m) \<and>
     (\<forall>ii jj ob m. 0 \<le> ii \<and> ii < nx p \<and> 0 \<le> jj \<and> (jj < r \<or> jj = r \<and> ii < c) \<and>
         arr_get obs (ii + jj * nx p) = Inr ob \<and> ob \<noteq> 0 \<and> 1 \<le> m \<and> m \<le> 8 \<longrightarrow>
           (\<exists>v. get_speed (tmp_cells g) (ii + jj * nx p) (opposite m) = Inr v \<and>
                get_speed (cells t) (ii + jj * nx p) m = Inr v)))"
  have fin: "I (max 0 (ny p)) 0 g'"
  proof (rule grid_loop_invariant [where I = I, OF run [unfolded rebound_def]])
    show "I 0 0 g" unfolding I_def by auto
  next
    fix r c t t'
    assume h: "0 \<le> r" "r < ny p" "0 \<le> c" "c < nx p" "I r c t" "rebound_cell p obs r c t = Inr t'"
    note eff = rebound_cell_effect [OF h(6)]
    have tmp: "tmp_cells t = tmp_cells g" using h(5) [unfolded I_def] by (rule conjunct1)
    have inv0: "get_speed (cells t) j m = get_speed (cells g) j m" if "m = 0 \<or> 9 \<le> m" for j m
      using that by (rule h(5) [unfolded I_def, THEN conjunct2, THEN conjunct1, rule_format])
    have a: "get_speed (cells t') j m = get_speed (cells g) j m" if m: "m = 0 \<or> 9 \<le> m" for j m
    proof (cases "arr_get obs (c + r * nx p) = Inr 0")
      case True
      then have "t' = t" by (rule eff(2))
      then show ?thesis using inv0 [OF m] by simp
    next
      case False
      from h(6) obtain ob where ob: "arr_get obs (c + r * nx p) = Inr ob"
        by (auto simp: rebound_cell_def bind_err_eq_Inr add.commute)
      then have "ob \<noteq> 0" using False by auto
      from rebound_cell_mirror(2) [OF h(6) ob this m] show ?thesis
        using inv0 [OF m] by simp
    qed
    have b: "\<exists>v. get_speed (tmp_cells g) (ii + jj * nx p) (opposite m) = Inr v \<and>
                get_speed (cells t') (ii + jj * nx p) m = Inr v"
      if c: "0 \<le> ii \<and> ii < nx p \<and> 0 \<le> jj \<and> (jj < r \<or> jj = r \<and> ii < c + 1) \<and>
         arr_get obs (ii + jj * nx p) = Inr ob \<and> ob \<noteq> 0 \<and> 1 \<le> m \<and> m \<le> 8" for ii jj ob m
    proof (cases "jj = r \<and> ii = c")
      case True
      then show ?thesis using rebound_cell_mirror(1) [OF h(6), of ob m] c tmp by simp
    next
      case False
      then have "ii + jj * nx p \<noteq> c + r * nx p"
        using cell_index_inj [of ii "nx p" c jj r] c h(3,4) by blast
      then have "get_speed (cells t') (ii + jj * nx p) m = get_speed (cells t) (ii + jj * nx p) m"
        by (rule eff(3))
      moreover have "jj < r \<or> jj = r \<and> ii < c" using c False by linarith
      with c have "0 \<le> ii \<and> ii < nx p \<and> 0 \<le> jj \<and> (jj < r \<or> jj = r \<and> ii < c) \<and>
         arr_get obs (ii + jj * nx p) = Inr ob \<and> ob \<noteq> 0 \<and> 1 \<le> m \<and> m \<le> 8" by simp
      then have "\<exists>v. get_speed (tmp_cells g) (ii + jj * nx p) (opposite m) = Inr v \<and>
                get_speed (cells t) (ii + jj * nx p) m = Inr v"
        by (rule h(5) [unfolded I_def, THEN conjunct2, THEN conjunct2, rule_format])
      ultimately show ?thesis by simp
    qed
    show "I r (c + 1) t'" unfolding I_def
    proof (intro conjI allI impI)
      show "tmp_cells t' = tmp_cells g" using eff(1) tmp by simp
    next
      fix j and m :: nat
      assume "m = 0 \<or> 9 \<le> m"
      then show "get_speed (cells t') j m = get_speed (cells g) j m" by (rule a)
    next
      fix ii jj ob and m :: nat
      assume "0 \<le> ii \<and> ii < nx p \<and> 0 \<le> jj \<and> (jj < r \<or> jj = r \<and> ii < c + 1) \<and>
         arr_get obs (ii + jj * nx p) = Inr ob \<and> ob \<noteq> 0 \<and> 1 \<le> m \<and> m \<le> 8"
      then show "\<exists>v. get_speed (tmp_cells g) (ii + jj * nx p) (opposite m) = Inr v \<and>
                get_speed (cells t') (ii + jj * nx p) m = Inr v" by (rule b)
    qed
  next
    fix r t
    assume h: "0 \<le> r" "r < ny p" "I r (max 0 (nx p)) t"
    note inv = h(3) [unfolded I_def]
    show "I (r + 1) 0 t" unfolding I_def
    proof (intro conjI allI impI)
      show "tmp_cells t = tmp_cells g" using inv by (rule conjunct1)
    next
      fix j and m :: nat
      assume "m = 0 \<or> 9 \<le> m"
      then show "get_speed (cells t) j m = get_speed (cells g) j m"
        by (rule inv [THEN conjunct2, THEN conjunct1, rule_format])
    next
      fix ii jj ob and m :: nat
      assume c: "0 \<le> ii \<and> ii < nx p \<and> 0 \<le> jj \<and> (jj < r + 1 \<or> jj = r + 1 \<and> ii < 0) \<and>
         arr_get obs (ii + jj * nx p) = Inr ob \<and> ob \<noteq> 0 \<and> 1 \<le> m \<and> m \<le> 8"
      then have "jj < r \<or> jj = r \<and> ii < max 0 (nx p)" by linarith
      with c have "0 \<le> ii \<and> ii < nx p \<and> 0 \<le> jj \<and> (jj < r \<or> jj = r \<and> ii < max 0 (nx p)) \<and>
         arr_get obs (ii + jj * nx p) = Inr ob \<and> ob \<noteq> 0 \<and> 1 \<le> m \<and> m \<le> 8" by simp
      then show "\<exists>v. get_speed (tmp_cells g) (ii + jj * nx p) (opposite m) = Inr v \<and>
                get_speed (cells t) (ii + jj * nx p) m = Inr v"
        by (rule inv [THEN conjunct2, THEN conjunct2, rule_format])
    qed
  qed
  note f = fin [unfolded I_def]
  show "\<exists>v. get_speed (tmp_cells g) (ii + jj * nx p) (opposite m) = Inr v \<and>
               get_speed (cells g') (ii + jj * nx p) m = Inr v"
    if c: "0 \<le> ii \<and> ii < nx p \<and> 0 \<le> jj \<and> jj < ny p \<and>
         arr_get obs (ii + jj * nx p) = Inr ob \<and> ob \<noteq> 0 \<and> 1 \<le> m \<and> m \<le> 8"
  proof -
    have "jj < max 0 (ny p) \<or> jj = max 0 (ny p) \<and> ii < 0" using c by linarith
    with c have "0 \<le> ii \<and> ii < nx p \<and> 0 \<le> jj \<and>
         (jj < max 0 (ny p) \<or> jj = max 0 (ny p) \<and> ii < 0) \<and>
         arr_get obs (ii + jj * nx p) = Inr ob \<and> ob \<noteq> 0 \<and> 1 \<le> m \<and> m \<le> 8" by simp
    then show ?thesis by (rule f [THEN conjunct2, THEN conjunct2, rule_format])
  qed
  show "get_speed (cells g') j m = get_speed (cells g) j m" if "m = 0 \<or> 9 \<le> m"
    using that by (rule f [THEN conjunct2, THEN conjunct1, rule_format])
qed

subsection \<open>What accelerate\_flow writes\<close>

lemma accelerate_shift_effect:
  assumes shift: "run_stmts [add_to_speed i 1 w1, add_to_speed i 5 w2, add_to_speed i 8 w2,
         sub_from_speed i 3 w1, sub_from_speed i 6 w2, sub_from_speed i 7 w2] g = Inr g'"
  shows "\<exists>v1 v3 v5 v6 v7 v8.
        get_speed (cells g) i 1 = Inr v1 \<and> get_speed (cells g) i 3 = Inr v3 \<and>
        get_speed (cells g) i 5 = Inr v5 \<and> get_speed (cells g) i 6 = Inr v6 \<and>
        get_speed (cells g) i 7 = Inr v7 \<and> get_speed (cells g) i 8 = Inr v8 \<and>
        (\<forall>j m. get_speed (cells g') j m =
           (if j = i \<and> m = 7 then Inr (v7 - w2)
            else if j = i \<and> m = 6 then Inr (v6 - w2)
            else if j = i \<and> m = 3 then Inr (v3 - w1)
            else if j = i \<and> m = 8 then Inr (v8 + w2)
            else if j = i \<and> m = 5 then Inr (v5 + w2)
            else if j = i \<and> m = 1 then Inr (v1 + w1)
            else get_speed (cells g) j m))"
proof -
  from shift obtain g1 g2 g3 g4 g5 where
    s1: "add_to_speed i 1 w1 g = Inr g1" and
    s2: "add_to_speed i 5 w2 g1 = Inr g2" and
    s3: "add_to_speed i 8 w2 g2 = Inr g3" and
    s4: "sub_from_speed i 3 w1 g3 = Inr g4" and
    s5: "sub_from_speed i 6 w2 g4 = Inr g5" and
    s6: "sub_from_speed i 7 w2 g5 = Inr g'"
    unfolding run_stmts.simps bind_err_eq_Inr by blast
  from add_to_speed_effect(2) [OF s1] obtain v1 where
    v1: "get_speed (cells g) i 1 = Inr v1" and
    e1: "\<And>j m. get_speed (cells g1) j m =
           (if j = i \<and> m = 1 then Inr (v1 + w1) else get_speed (cells g) j m)"
    by blast
  from add_to_speed_effect(2) [OF s2] obtain v5 where
    v5: "get_speed (cells g1) i 5 = Inr v5" and
    e2: "\<And>j m. get_speed (cells g2) j m =
           (if j = i \<and> m = 5 then Inr (v5 + w2) else get_speed (cells g1) j m)"
    by blast
  from add_to_speed_effect(2) [OF s3] obtain v8 where
    v8: "get_speed (cells g2) i 8 = Inr v8" and
    e3: "\<And>j m. get_speed (cells g3) j m =
           (if j = i \<and> m = 8 then Inr (v8 + w2) else get_speed (cells g2) j m)"
    by blast
  from sub_from_speed_effect(2) [OF s4] obtain v3 where
    v3: "get_speed (cells g3) i 3 = Inr v3" and
    e4: "\<And>j m. get_speed (cells g4) j m =
           (if j = i \<and> m = 3 then Inr (v3 - w1) else get_speed (cells g3) j m)"
    by blast
  from sub_from_speed_effect(2) [OF s5] obtain v6 where
    v6: "get_speed (cells g4) i 6 = Inr v6" and
    e5: "\<And>j m. get_speed (cells g5) j m =
           (if j = i \<and> m = 6 then Inr (v6 - w2) else get_speed (cells g4) j m)"
    by blast
  from sub_from_speed_effect(2) [OF s6] obtain v7 where
    v7: "get_speed (cells g5) i 7 = Inr v7" and
    e6: "\<And>j m. get_speed (cells g') j m =
           (if j = i \<and> m = 7 then Inr (v7 - w2) else get_speed (cells g5) j m)"
    by blast
  have r: "get_speed (cells g) i 1 = Inr v1" "get_speed (cells g) i 3 = Inr v3"
    "get_speed (cells g) i 5 = Inr v5" "get_speed (cells g) i 6 = Inr v6"
    "get_speed (cells g) i 7 = Inr v7" "get_speed (cells g) i 8 = Inr v8"
    using v1 v3 v5 v6 v7 v8 by (simp_all add: e1 e2 e3 e4 e5)
  have "get_speed (cells g') j m =
         (if j = i \<and> m = 7 then Inr (v7 - w2)
          else if j = i \<and> m = 6 then Inr (v6 - w2)
          else if j = i \<and> m = 3 then Inr (v3 - w1)
          else if j = i \<and> m = 8 then Inr (v8 + w2)
          else if j = i \<and> m = 5 then Inr (v5 + w2)
          else if j = i \<and> m = 1 then Inr (v1 + w1)
          else get_speed (cells g) j m)" for j m
    unfolding e6 e5 e4 e3 e2 e1 ..
  then show ?thesis using r by blast
qed

text \<open>
  The test of accelerate\_flow on a cell: not an obstacle, and speeds 3, 6 and 7 stay
  positive. The cell is shifted when it passes and left as it is when it does not.
\<close>

lemma accelerate_cell_exact:
  assumes run: "accelerate_cell p obs ii g = Inr g'"
  shows "arr_get obs (ii + (ny p - 2) * nx p) = Inr 0 \<and>
         get_speed (cells g) (ii + (ny p - 2) * nx p) 3 = Inr v3 \<and>
         get_speed (cells g) (ii + (ny p - 2) * nx p) 6 = Inr v6 \<and>
         get_speed (cells g) (ii + (ny p - 2) * nx p) 7 = Inr v7 \<and>
         v3 - density p * accel p / 9 > 0 \<and> v6 - density p * accel p / 36 > 0 \<and>
         v7 - density p * accel p / 36 > 0 \<Longrightarrow>
      \<exists>v1 v5 v8.
        get_speed (cells g) (ii + (ny p - 2) * nx p) 1 = Inr v1 \<and>
        get_speed (cells g) (ii + (ny p - 2) * nx p) 5 = Inr v5 \<and>
        get_speed (cells g) (ii + (ny p - 2) * nx p) 8 = Inr v8 \<and>
        (\<forall>j m. get_speed (cells g') j m =
           (if j = ii + (ny p - 2) * nx p \<and> m = 7 then Inr (v7 - density p * accel p / 36)
            else if j = ii + (ny p - 2) * nx p \<and> m = 6 then Inr (v6 - density p * accel p / 36)
            else if j = ii + (ny p - 2) * nx p \<and> m = 3 then Inr (v3 - density p * accel p / 9)
            else if j = ii + (ny p - 2) * nx p \<and> m = 8 then Inr (v8 + density p * accel p / 36)
            else if j = ii + (ny p - 2) * nx p \<and> m = 5 then Inr (v5 + density p * accel p / 36)
            else if j = ii + (ny p - 2) * nx p \<and> m = 1 then Inr (v1 + density p * accel p / 9)
            else get_speed (cells g) j m))"
    and "\<not> (\<exists>v3 v6 v7. arr_get obs (ii + (ny p - 2) * nx p) = Inr 0 \<and>
         get_speed (cells g) (ii + (ny p - 2) * nx p) 3 = Inr v3 \<and>
         get_speed (cells g) (ii + (ny p - 2) * nx p) 6 = Inr v6 \<and>
         get_speed (cells g) (ii + (ny p - 2) * nx p) 7 = Inr v7 \<and>
         v3 - density p * accel p / 9 > 0 \<and> v6 - density p * accel p / 36 > 0 \<and>
         v7 - density p * accel p / 36 > 0) \<Longrightarrow> g' = g"
proof -
  define i where "i = ii + (ny p - 2) * nx p"
  define w1 where "w1 = density p * accel p / 9"
  define w2 where "w2 = density p * accel p / 36"
  note d = accelerate_cell_def Let_def i_def [symmetric] w1_def [symmetric] w2_def [symmetric]
  show "\<exists>v1 v5 v8.
        get_speed (cells g) (ii + (ny p - 2) * nx p) 1 = Inr v1 \<and>
        get_speed (cells g) (ii + (ny p - 2) * nx p) 5 = Inr v5 \<and>
        get_speed (cells g) (ii + (ny p - 2) * nx p) 8 = Inr v8 \<and>
        (\<forall>j m. get_speed (cells g') j m =
           (if j = ii + (ny p - 2) * nx p \<and> m = 7 then Inr (v7 - density p * accel p / 36)
            else if j = ii + (ny p - 2) * nx p \<and> m = 6 then Inr (v6 - density p * accel p / 36)
            else if j = ii + (ny p - 2) * nx p \<and> m = 3 then Inr (v3 - density p * accel p / 9)
            else if j = ii + (ny p - 2) * nx p \<and> m = 8 then Inr (v8 + density p * accel p / 36)
            else if j = ii + (ny p - 2) * nx p \<and> m = 5 then Inr (v5 + density p * accel p / 36)
            else if j = ii + (ny p - 2) * nx p \<and> m = 1 then Inr (v1 + density p * accel p / 9)
            else get_speed (cells g) j m))"
    if c: "arr_get obs (ii + (ny p - 2) * nx p) = Inr 0 \<and>
         get_speed (cells g) (ii + (ny p - 2) * nx p) 3 = Inr v3 \<and>
         get_speed (cells g) (ii + (ny p - 2) * nx p) 6 = Inr v6 \<and>
         get_speed (cells g) (ii + (ny p - 2) * nx p) 7 = Inr v7 \<and>
         v3 - density p * accel p / 9 > 0 \<and> v6 - density p * accel p / 36 > 0 \<and>
         v7 - density p * accel p / 36 > 0"
  proof -
    have "run_stmts [add_to_speed i 1 w1, add_to_speed i 5 w2, add_to_speed i 8 w2,
         sub_from_speed i 3 w1, sub_from_speed i 6 w2, sub_from_speed i 7 w2] g = Inr g'"
      using run c unfolding d by simp
    from accelerate_shift_effect [OF this] obtain u1 u3 u5 u6 u7 u8 where
      r: "get_speed (cells g) i 1 = Inr u1" "get_speed (cells g) i 3 = Inr u3"
        "get_speed (cells g) i 5 = Inr u5" "get_speed (cells g) i 6 = Inr u6"
        "get_speed (cells g) i 7 = Inr u7" "get_speed (cells g) i 8 = Inr u8"
      and e: "\<forall>j m. get_speed (cells g') j m =
           (if j = i \<and> m = 7 then Inr (u7 - w2)
            else if j = i \<and> m = 6 then Inr (u6 - w2)
            else if j = i \<and> m = 3 then Inr (u3 - w1)
            else if j = i \<and> m = 8 then Inr (u8 + w2)
            else if j = i \<and> m = 5 then Inr (u5 + w2)
            else if j = i \<and> m = 1 then Inr (u1 + w1)
            else get_speed (cells g) j m)"
      by blast
    have "u3 = v3" "u6 = v6" "u7 = v7" using r c unfolding i_def by simp_all
    then show ?thesis using r e unfolding i_def w1_def w2_def by blast
  qed
  show "g' = g"
    if "\<not> (\<exists>v3 v6 v7. arr_get obs (ii + (ny p - 2) * nx p) = Inr 0 \<and>
         get_speed (cells g) (ii + (ny p - 2) * nx p) 3 = Inr v3 \<and>
         get_speed (cells g) (ii + (ny p - 2) * nx p) 6 = Inr v6 \<and>
         get_speed (cells g) (ii + (ny p - 2) * nx p) 7 = Inr v7 \<and>
         v3 - density p * accel p / 9 > 0 \<and> v6 - density p * accel p / 36 > 0 \<and>
         v7 - density p * accel p / 36 > 0)"
    using run that unfolding accelerate_cell_def Let_def
    by (auto simp: bind_err_eq_Inr split: if_splits)
qed

lemma accelerate_flow_shift:
  assumes run: "accelerate_flow p g obs = Inr g'"
    and ii: "0 \<le> ii" "ii < nx p"
  shows "arr_get obs (ii + (ny p - 2) * nx p) = Inr 0 \<and>
         get_speed (cells g) (ii + (ny p - 2) * nx p) 3 = Inr v3 \<and>
         get_speed (cells g) (ii + (ny p - 2) * nx p) 6 = Inr v6 \<and>
         get_speed (cells g) (ii + (ny p - 2) * nx p) 7 = Inr v7 \<and>
         v3 - density p * accel p / 9 > 0 \<and> v6 - density p * accel p / 36 > 0 \<and>
         v7 - density p * accel p / 36 > 0 \<Longrightarrow>
      \<exists>v1 v5 v8.
        get_speed (cells g) (ii + (ny p - 2) * nx p) 1 = Inr v1 \<and>
        get_speed (cells g) (ii + (ny p - 2) * nx p) 5 = Inr v5 \<and>
        get_speed (cells g) (ii + (ny p - 2) * nx p) 8 = Inr v8 \<and>
        (\<forall>m. get_speed (cells g') (ii + (ny p - 2) * nx p) m =
           (if m = 7 then Inr (v7 - density p * accel p / 36)
            else if m = 6 then Inr (v6 - density p * accel p / 36)
            else if m = 3 then Inr (v3 - density p * accel p / 9)
            else if m = 8 then Inr (v8 + density p * accel p / 36)
            else if m = 5 then Inr (v5 + density p * accel p / 36)
            else if m = 1 then Inr (v1 + density p * accel p / 9)
            else get_speed (cells g) (ii + (ny p - 2) * nx p) m))"
    and "\<not> (\<exists>v3 v6 v7. arr_get obs (ii + (ny p - 2) * nx p) = Inr 0 \<and>
         get_speed (cells g) (ii + (ny p - 2) * nx p) 3 = Inr v3 \<and>
         get_speed (cells g) (ii + (ny p - 2) * nx p) 6 = Inr v6 \<and>
         get_speed (cells g) (ii + (ny p - 2) * nx p) 7 = Inr v7 \<and>
         v3 - density p * accel p / 9 > 0 \<and> v6 - density p * accel p / 36 > 0 \<and>
         v7 - density p * accel p / 36 > 0) \<Longrightarrow>
       get_speed (cells g') (ii + (ny p - 2) * nx p) m = get_speed (cells g) (ii + (ny p - 2) * nx p) m"
proof -
  define i where "i = ii + (ny p - 2) * nx p"
  define w1 where "w1 = density p * accel p / 9"
  define w2 where "w2 = density p * accel p / 36"
  define C where "C = (\<lambda>(t::grids) v3 v6 v7. arr_get obs i = Inr 0 \<and>
         get_speed (cells t) i 3 = Inr v3 \<and> get_speed (cells t) i 6 = Inr v6 \<and>
         get_speed (cells t) i 7 = Inr v7 \<and> v3 - w1 > 0 \<and> v6 - w2 > 0 \<and> v7 - w2 > 0)"
  define F where "F = (\<lambda>(t::grids) (t'::grids) v3 v6 v7. \<exists>v1 v5 v8.
        get_speed (cells t) i 1 = Inr v1 \<and> get_speed (cells t) i 5 = Inr v5 \<and>
        get_speed (cells t) i 8 = Inr v8 \<and>
        (\<forall>m. get_speed (cells t') i m =
           (if m = 7 then Inr (v7 - w2) else if m = 6 then Inr (v6 - w2)
            else if m = 3 then Inr (v3 - w1) else if m = 8 then Inr (v8 + w2)
            else if m = 5 then Inr (v5 + w2) else if m = 1 then Inr (v1 + w1)
            else get_speed (cells t) i m)))"
  define Post where "Post = (\<lambda>(t::grids) (t'::grids).
     (\<forall>v3 v6 v7. C t v3 v6 v7 \<longrightarrow> F t t' v3 v6 v7) \<and>
     (\<not> (\<exists>v3 v6 v7. C t v3 v6 v7) \<longrightarrow> (\<forall>m. get_speed (cells t') i m = get_speed (cells t) i m)))"
  define same where "same = (\<lambda>(t::grids) (t'::grids).
     \<forall>m. get_speed (cells t') i m = get_speed (cells t) i m)"
  define I where "I = (\<lambda>(k::int) (t::grids). (k \<le> ii \<longrightarrow> same g t) \<and> (ii < k \<longrightarrow> Post g t))"
  have cell: "Post t t'" if body: "accelerate_cell p obs ii t = Inr t'" for t t'
    unfolding Post_def
  proof (intro conjI allI impI)
    fix v3 v6 v7
    assume "C t v3 v6 v7"
    then have c: "arr_get obs (ii + (ny p - 2) * nx p) = Inr 0 \<and>
         get_speed (cells t) (ii + (ny p - 2) * nx p) 3 = Inr v3 \<and>
         get_speed (cells t) (ii + (ny p - 2) * nx p) 6 = Inr v6 \<and>
         get_speed (cells t) (ii + (ny p - 2) * nx p) 7 = Inr v7 \<and>
         v3 - density p * accel p / 9 > 0 \<and> v6 - density p * accel p / 36 > 0 \<and>
         v7 - density p * accel p / 36 > 0"
      unfolding C_def i_def w1_def w2_def .
    from accelerate_cell_exact(1) [OF body c] obtain v1 v5 v8 where
      r: "get_speed (cells t) i 1 = Inr v1" "get_speed (cells t) i 5 = Inr v5"
         "get_speed (cells t) i 8 = Inr v8"
      and e: "\<And>j m. get_speed (cells t') j m =
           (if j = i \<and> m = 7 then Inr (v7 - w2)
            else if j = i \<and> m = 6 then Inr (v6 - w2)
            else if j = i \<and> m = 3 then Inr (v3 - w1)
            else if j = i \<and> m = 8 then Inr (v8 + w2)
            else if j = i \<and> m = 5 then Inr (v5 + w2)
            else if j = i \<and> m = 1 then Inr (v1 + w1)
            else get_speed (cells t) j m)"
      unfolding i_def [symmetric] w1_def [symmetric] w2_def [symmetric] by blast
    have "\<forall>m. get_speed (cells t') i m =
           (if m = 7 then Inr (v7 - w2) else if m = 6 then Inr (v6 - w2)
            else if m = 3 then Inr (v3 - w1) else if m = 8 then Inr (v8 + w2)
            else if m = 5 then Inr (v5 + w2) else if m = 1 then Inr (v1 + w1)
            else get_speed (cells t) i m)"
      by (simp add: e)
    then show "F t t' v3 v6 v7" unfolding F_def using r by blast
  next
    fix m
    assume "\<not> (\<exists>v3 v6 v7. C t v3 v6 v7)"
    then have "t' = t"
      using accelerate_cell_exact(2) [OF body] unfolding C_def i_def w1_def w2_def by blast
    then show "get_speed (cells t') i m = get_speed (cells t) i m" by simp
  qed
  have transfer: "Post g t'" if s: "same g t" and p: "Post t t'" for t t'
  proof -
    have C: "C t = C g" using s unfolding C_def same_def by simp
    have F: "F t t' = F g t'" using s unfolding F_def same_def by simp
    show ?thesis using p s unfolding Post_def C F same_def by simp
  qed
  have keep: "Post g t'" if p: "Post g t" and s: "same t t'" for t t'
  proof -
    have F: "F g t' = F g t" using s unfolding F_def same_def by simp
    show ?thesis using p s unfolding Post_def F same_def by simp
  qed
  have fin: "I (max 0 (nx p)) g'"
  proof (rule for_loop_invariant [where I = I, OF run [unfolded accelerate_flow_def]])
    show "I 0 g" using ii by (simp add: I_def same_def)
  next
    fix k t t'
    assume h: "0 \<le> k" "k < nx p" "I k t" "accelerate_cell p obs k t = Inr t'"
    note eff = accelerate_cell_effect [OF h(4)]
    consider (before) "k < ii" | (here) "k = ii" | (after) "ii < k" by linarith
    then show "I (k + 1) t'"
    proof cases
      case before
      then have "i \<noteq> k + (ny p - 2) * nx p" unfolding i_def by simp
      then have "same t t'" unfolding same_def using eff(2) by blast
      moreover have "same g t" using h(3) before unfolding I_def by simp
      ultimately have "same g t'" unfolding same_def by simp
      then show ?thesis using before unfolding I_def by simp
    next
      case here
      then have "same g t" using h(3) unfolding I_def by simp
      moreover have "Post t t'" using h(4) here by (intro cell) simp
      ultimately have "Post g t'" by (rule transfer)
      then show ?thesis using here unfolding I_def by simp
    next
      case after
      then have "i \<noteq> k + (ny p - 2) * nx p" unfolding i_def by simp
      then have st: "same t t'" unfolding same_def using eff(2) by blast
      have "Post g t" using h(3) after unfolding I_def by simp
      then have "Post g t'" using st by (rule keep)
      then show ?thesis using after unfolding I_def by simp
    qed
  qed
  then have post: "Post g g'" using ii unfolding I_def by simp
  show "\<exists>v1 v5 v8.
        get_speed (cells g) (ii + (ny p - 2) * nx p) 1 = Inr v1 \<and>
        get_speed (cells g) (ii + (ny p - 2) * nx p) 5 = Inr v5 \<and>
        get_speed (cells g) (ii + (ny p - 2) * nx p) 8 = Inr v8 \<and>
        (\<forall>m. get_speed (cells g') (ii + (ny p - 2) * nx p) m =
           (if m = 7 then Inr (v7 - density p * accel p / 36)
            else if m = 6 then Inr (v6 - density p * accel p / 36)
            else if m = 3 then Inr (v3 - density p * accel p / 9)
            else if m = 8 then Inr (v8 + density p * accel p / 36)
            else if m = 5 then Inr (v5 + density p * accel p / 36)
            else if m = 1 then Inr (v1 + density p * accel p / 9)
            else get_speed (cells g) (ii + (ny p - 2) * nx p) m))"
    if "arr_get obs (ii + (ny p - 2) * nx p) = Inr 0 \<and>
         get_speed (cells g) (ii + (ny p - 2) * nx p) 3 = Inr v3 \<and>
         get_speed (cells g) (ii + (ny p - 2) * nx p) 6 = Inr v6 \<and>
         get_speed (cells g) (ii + (ny p - 2) * nx p) 7 = Inr v7 \<and>
         v3 - density p * accel p / 9 > 0 \<and> v6 - density p * accel p / 36 > 0 \<and>
         v7 - density p * accel p / 36 > 0"
  proof -
    from that have "C g v3 v6 v7" unfolding C_def i_def w1_def w2_def .
    then have "F g g' v3 v6 v7" using post unfolding Post_def by blast
    then show ?thesis unfolding F_def i_def w1_def w2_def .
  qed
  show "get_speed (cells g') (ii + (ny p - 2) * nx p) m = get_speed (cells g) (ii + (ny p - 2) * nx p) m"
    if "\<not> (\<exists>v3 v6 v7. arr_get obs (ii + (ny p - 2) * nx p) = Inr 0 \<and>
         get_speed (cells g) (ii + (ny p - 2) * nx p) 3 = Inr v3 \<and>
         get_speed (cells g) (ii + (ny p - 2) * nx p) 6 = Inr v6 \<and>
         get_speed (cells g) (ii + (ny p - 2) * nx p) 7 = Inr v7 \<and>
         v3 - density p * accel p / 9 > 0 \<and> v6 - density p * accel p / 36 > 0 \<and>
         v7 - density p * accel p / 36 > 0)"
  proof -
    from that have "\<not> (\<exists>v3 v6 v7. C g v3 v6 v7)" unfolding C_def i_def w1_def w2_def .
    then have "\<forall>m. get_speed (cells g') i m = get_speed (cells g) i m"
      using post unfolding Post_def by blast
    then show ?thesis unfolding i_def by blast
  qed
qed

subsection \<open>What the kernels preserve\<close>

text \<open>
  Claim C3, as amended. In exact real arithmetic, whenever the kernel returns: propagate
  preserves the sum of all populations over all cells of the grid, obstacles included
  (total\_density of the scratch space after it is that of the main grid before it);
  rebound preserves the sum over the fluid cells of the main grid: it leaves the fluid
  cells and the scratch space as they are, and gives speeds 1 to 8 of every obstacle cell
  the population that the scratch space holds at the opposite speed; collision gives the
  fluid cells of the main grid the sum that the fluid cells of the scratch space have;
  accelerate\_flow changes no cell outside the driven row \<open>ny - 2\<close> and preserves the sum of
  the nine populations of every cell: on a cell of the driven row that is not an obstacle
  and whose speeds 3, 6 and 7 stay positive it adds \<open>w1\<close>, \<open>w2\<close>, \<open>w2\<close> to speeds 1, 5, 8 and
  subtracts \<open>w1\<close>, \<open>w2\<close>, \<open>w2\<close> from speeds 3, 6, 7, with \<open>w1 = density * accel / 9\<close> and
  \<open>w2 = density * accel / 36\<close>, and every other cell of the row it leaves as it is.
\<close>

theorem kernels_preserve_density:
  "(propagate p g = Inr g' \<longrightarrow>
      (\<exists>m. total_density p (cells g) = Inr m \<and> total_density p (tmp_cells g') = Inr m))
   \<and> (rebound p g obs = Inr g' \<longrightarrow>
      fluid_density p obs (cells g') = fluid_density p obs (cells g) \<and>
      tmp_cells g' = tmp_cells g \<and>
      (\<forall>j m. arr_get obs j = Inr 0 \<longrightarrow> get_speed (cells g') j m = get_speed (cells g) j m) \<and>
      (\<forall>ii jj ob m. 0 \<le> ii \<and> ii < nx p \<and> 0 \<le> jj \<and> jj < ny p \<and>
         arr_get obs (ii + jj * nx p) = Inr ob \<and> ob \<noteq> 0 \<and> 1 \<le> m \<and> m \<le> 8 \<longrightarrow>
           (\<exists>v. get_speed (tmp_cells g) (ii + jj * nx p) (opposite m) = Inr v \<and>
                get_speed (cells g') (ii + jj * nx p) m = Inr v)))
   \<and> (collision p g obs = Inr g' \<longrightarrow>
      (\<exists>m. fluid_density p obs (tmp_cells g) = Inr m \<and> fluid_density p obs (cells g') = Inr m))
   \<and> (accelerate_flow p g obs = Inr g' \<longrightarrow>
      (\<forall>j k. \<not> (\<exists>ii. 0 \<le> ii \<and> ii < nx p \<and> j = ii + (ny p - 2) * nx p) \<longrightarrow>
         get_speed (cells g') j k = get_speed (cells g) j k) \<and>
      (\<forall>j d. sum_speeds (cells g) j = Inr d \<longrightarrow> sum_speeds (cells g') j = Inr d) \<and>
      (\<forall>ii. 0 \<le> ii \<and> ii < nx p \<longrightarrow>
         (\<forall>v3 v6 v7. arr_get obs (ii + (ny p - 2) * nx p) = Inr 0 \<and>
            get_speed (cells g) (ii + (ny p - 2) * nx p) 3 = Inr v3 \<and>
            get_speed (cells g) (ii + (ny p - 2) * nx p) 6 = Inr v6 \<and>
            get_speed (cells g) (ii + (ny p - 2) * nx p) 7 = Inr v7 \<and>
            v3 - density p * accel p / 9 > 0 \<and> v6 - density p * accel p / 36 > 0 \<and>
            v7 - density p * accel p / 36 > 0 \<longrightarrow>
          (\<exists>v1 v5 v8.
            get_speed (cells g) (ii + (ny p - 2) * nx p) 1 = Inr v1 \<and>
            get_speed (cells g) (ii + (ny p - 2) * nx p) 5 = Inr v5 \<and>
            get_speed (cells g) (ii + (ny p - 2) * nx p) 8 = Inr v8 \<and>
            (\<forall>m. get_speed (cells g') (ii + (ny p - 2) * nx p) m =
               (if m = 7 then Inr (v7 - density p * accel p / 36)
                else if m = 6 then Inr (v6 - density p * accel p / 36)
                else if m = 3 then Inr (v3 - density p * accel p / 9)
                else if m = 8 then Inr (v8 + density p * accel p / 36)
                else if m = 5 then Inr (v5 + density p * accel p / 36)
                else if m = 1 then Inr (v1 + density p * accel p / 9)
                else get_speed (cells g) (ii + (ny p - 2) * nx p) m)))) \<and>
         (\<not> (\<exists>v3 v6 v7. arr_get obs (ii + (ny p - 2) * nx p) = Inr 0 \<and>
            get_speed (cells g) (ii + (ny p - 2) * nx p) 3 = Inr v3 \<and>
            get_speed (cells g) (ii + (ny p - 2) * nx p) 6 = Inr v6 \<and>
            get_speed (cells g) (ii + (ny p - 2) * nx p) 7 = Inr v7 \<and>
            v3 - density p * accel p / 9 > 0 \<and> v6 - density p * accel p / 36 > 0 \<and>
            v7 - density p * accel p / 36 > 0) \<longrightarrow>
          (\<forall>m. get_speed (cells g') (ii + (ny p - 2) * nx p) m
                 = get_speed (cells g) (ii + (ny p - 2) * nx p) m))))"
proof (intro conjI impI allI)
  assume "propagate p g = Inr g'"
  then show "\<exists>m. total_density p (cells g) = Inr m \<and> total_density p (tmp_cells g') = Inr m"
    by (rule propagate_total_density)
next
  assume "rebound p g obs = Inr g'"
  then show "fluid_density p obs (cells g') = fluid_density p obs (cells g)"
    by (rule rebound_fluid_density)
next
  assume "rebound p g obs = Inr g'"
  then show "tmp_cells g' = tmp_cells g" by (rule rebound_effect(1))
next
  fix j m
  assume "rebound p g obs = Inr g'" "arr_get obs j = Inr 0"
  then show "get_speed (cells g') j m = get_speed (cells g) j m" by (rule rebound_effect(2))
next
  fix ii jj ob and m :: nat
  assume "rebound p g obs = Inr g'"
    and "0 \<le> ii \<and> ii < nx p \<and> 0 \<le> jj \<and> jj < ny p \<and>
         arr_get obs (ii + jj * nx p) = Inr ob \<and> ob \<noteq> 0 \<and> 1 \<le> m \<and> m \<le> 8"
  then show "\<exists>v. get_speed (tmp_cells g) (ii + jj * nx p) (opposite m) = Inr v \<and>
                get_speed (cells g') (ii + jj * nx p) m = Inr v"
    by (rule rebound_mirror(1))
next
  assume "collision p g obs = Inr g'"
  then show "\<exists>m. fluid_density p obs (tmp_cells g) = Inr m \<and> fluid_density p obs (cells g') = Inr m"
    by (rule collision_fluid_density)
next
  fix j k
  assume "accelerate_flow p g obs = Inr g'"
    and "\<not> (\<exists>ii. 0 \<le> ii \<and> ii < nx p \<and> j = ii + (ny p - 2) * nx p)"
  then show "get_speed (cells g') j k = get_speed (cells g) j k"
    by (rule accelerate_flow_effect(2))
next
  fix j d
  assume "accelerate_flow p g obs = Inr g'" and "sum_speeds (cells g) j = Inr d"
  then show "sum_speeds (cells g') j = Inr d"
    by (rule accelerate_flow_effect(4))
next
  fix ii v3 v6 v7
  assume run: "accelerate_flow p g obs = Inr g'" and ii: "0 \<le> ii \<and> ii < nx p"
    and c: "arr_get obs (ii + (ny p - 2) * nx p) = Inr 0 \<and>
            get_speed (cells g) (ii + (ny p - 2) * nx p) 3 = Inr v3 \<and>
            get_speed (cells g) (ii + (ny p - 2) * nx p) 6 = Inr v6 \<and>
            get_speed (cells g) (ii + (ny p - 2) * nx p) 7 = Inr v7 \<and>
            v3 - density p * accel p / 9 > 0 \<and> v6 - density p * accel p / 36 > 0 \<and>
            v7 - density p * accel p / 36 > 0"
  from ii have "0 \<le> ii" "ii < nx p" by simp_all
  from accelerate_flow_shift(1) [OF run this c]
  show "\<exists>v1 v5 v8.
            get_speed (cells g) (ii + (ny p - 2) * nx p) 1 = Inr v1 \<and>
            get_speed (cells g) (ii + (ny p - 2) * nx p) 5 = Inr v5 \<and>
            get_speed (cells g) (ii + (ny p - 2) * nx p) 8 = Inr v8 \<and>
            (\<forall>m. get_speed (cells g') (ii + (ny p - 2) * nx p) m =
               (if m = 7 then Inr (v7 - density p * accel p / 36)
                else if m = 6 then Inr (v6 - density p * accel p / 36)
                else if m = 3 then Inr (v3 - density p * accel p / 9)
                else if m = 8 then Inr (v8 + density p * accel p / 36)
                else if m = 5 then Inr (v5 + density p * accel p / 36)
                else if m = 1 then Inr (v1 + density p * accel p / 9)
                else get_speed (cells g) (ii + (ny p - 2) * nx p) m))" .
next
  fix ii m
  assume run: "accelerate_flow p g obs = Inr g'" and ii: "0 \<le> ii \<and> ii < nx p"
    and c: "\<not> (\<exists>v3 v6 v7. arr_get obs (ii + (ny p - 2) * nx p) = Inr 0 \<and>
            get_speed (cells g) (ii + (ny p - 2) * nx p) 3 = Inr v3 \<and>
            get_speed (cells g) (ii + (ny p - 2) * nx p) 6 = Inr v6 \<and>
            get_speed (cells g) (ii + (ny p - 2) * nx p) 7 = Inr v7 \<and>
            v3 - density p * accel p / 9 > 0 \<and> v6 - density p * accel p / 36 > 0 \<and>
            v7 - density p * accel p / 36 > 0)"
  from ii have "0 \<le> ii" "ii < nx p" by simp_all
  from accelerate_flow_shift(2) [OF run this c]
  show "get_speed (cells g') (ii + (ny p - 2) * nx p) m
                 = get_speed (cells g) (ii + (ny p - 2) * nx p) m" .
qed

lemma ex_kernels_return:
  "\<exists>g0 g1 g2 g3.
     accelerate_flow (ex_params\<lparr>accel := 1\<rparr>) ex_grids ex_obstacles = Inr g0 \<and>
     propagate ex_params ex_grids = Inr g1 \<and>
     get_speed (tmp_cells g1) 1 3 = Inr 3 \<and>
     rebound ex_params g1 ex_obstacles = Inr g2 \<and>
     collision ex_params g2 ex_obstacles = Inr g3"
  by (simp add: kernel_defs ex_defs eval_defs)

theorem kernels_preserve_density_witness:
  "\<exists>g0 g1 g2 g3.
     accelerate_flow (ex_params\<lparr>accel := 1\<rparr>) ex_grids ex_obstacles = Inr g0 \<and>
     propagate ex_params ex_grids = Inr g1 \<and>
     rebound ex_params g1 ex_obstacles = Inr g2 \<and>
     collision ex_params g2 ex_obstacles = Inr g3 \<and>
     (\<exists>m. total_density ex_params (cells ex_grids) = Inr m \<and>
          total_density ex_params (tmp_cells g1) = Inr m) \<and>
     fluid_density ex_params ex_obstacles (cells g2) = fluid_density ex_params ex_obstacles (cells g1) \<and>
     tmp_cells g2 = tmp_cells g1 \<and>
     get_speed (cells g2) 0 1 = get_speed (cells g1) 0 1 \<and>
     get_speed (tmp_cells g1) 1 3 = Inr 3 \<and>
     get_speed (cells g2) 1 1 = Inr 3 \<and>
     (\<exists>m. fluid_density ex_params ex_obstacles (tmp_cells g2) = Inr m \<and>
          fluid_density ex_params ex_obstacles (cells g3) = Inr m) \<and>
     get_speed (cells g0) 2 1 = get_speed (cells ex_grids) 2 1 \<and>
     sum_speeds (cells ex_grids) 0 = Inr 36 \<and>
     sum_speeds (cells g0) 0 = Inr 36 \<and>
     get_speed (cells g0) 0 1 = Inr (1 + 1 / 90) \<and>
     get_speed (cells g0) 0 7 = Inr (7 - 1 / 360) \<and>
     get_speed (cells g0) 0 0 = Inr 0 \<and>
     get_speed (cells g0) 1 3 = Inr 13"
proof -
  let ?q = "ex_params\<lparr>accel := 1\<rparr>"
  obtain g0 g1 g2 g3 where
    a: "accelerate_flow ?q ex_grids ex_obstacles = Inr g0" and
    p: "propagate ex_params ex_grids = Inr g1" and
    v: "get_speed (tmp_cells g1) 1 3 = Inr 3" and
    r: "rebound ex_params g1 ex_obstacles = Inr g2" and
    c: "collision ex_params g2 ex_obstacles = Inr g3"
    using ex_kernels_return by blast
  note P = kernels_preserve_density [of ex_params ex_grids g1 ex_obstacles,
      THEN conjunct1, THEN mp, OF p]
  note R = kernels_preserve_density [of ex_params g1 g2 ex_obstacles,
      THEN conjunct2, THEN conjunct1, THEN mp, OF r]
  note C = kernels_preserve_density [of ex_params g2 g3 ex_obstacles,
      THEN conjunct2, THEN conjunct2, THEN conjunct1, THEN mp, OF c]
  note A = kernels_preserve_density [of ?q ex_grids g0 ex_obstacles,
      THEN conjunct2, THEN conjunct2, THEN conjunct2, THEN mp, OF a]
  have r1: "fluid_density ex_params ex_obstacles (cells g2)
      = fluid_density ex_params ex_obstacles (cells g1)"
    and r2: "tmp_cells g2 = tmp_cells g1"
    using R by simp_all
  have "arr_get ex_obstacles 0 = Inr 0" by (simp add: ex_obstacles_def arr_get_def)
  from R [THEN conjunct2, THEN conjunct2, THEN conjunct1, rule_format, OF this]
  have r3: "get_speed (cells g2) 0 1 = get_speed (cells g1) 0 1" .
  have "0 \<le> (1::int) \<and> 1 < nx ex_params \<and> 0 \<le> (0::int) \<and> 0 < ny ex_params \<and>
      arr_get ex_obstacles (1 + 0 * nx ex_params) = Inr 1 \<and> (1::int) \<noteq> 0 \<and>
      1 \<le> (1::nat) \<and> (1::nat) \<le> 8"
    by (simp add: ex_params_def ex_obstacles_def arr_get_def)
  from R [THEN conjunct2, THEN conjunct2, THEN conjunct2, rule_format, OF this]
  have r4: "get_speed (cells g2) 1 1 = Inr 3"
    using v by (simp add: opposite_def ex_params_def)
  have row: "\<not> (\<exists>ii. 0 \<le> ii \<and> ii < nx ?q \<and> 2 = ii + (ny ?q - 2) * nx ?q)"
    by (simp add: ex_params_def)
  from A [THEN conjunct1, rule_format, OF this]
  have a1: "get_speed (cells g0) 2 1 = get_speed (cells ex_grids) 2 1" .
  have s: "sum_speeds (cells ex_grids) 0 = Inr 36"
    by (simp add: sum_speeds_unroll ex_grids_def get_speed_def upt_rec)
  from A [THEN conjunct2, THEN conjunct1, rule_format, OF this]
  have a2: "sum_speeds (cells g0) 0 = Inr 36" .
  have i0: "0 \<le> (0::int) \<and> 0 < nx ?q" and i1: "0 \<le> (1::int) \<and> 1 < nx ?q"
    by (simp_all add: ex_params_def)
  have idx: "0 + (ny ?q - 2) * nx ?q = 0" "1 + (ny ?q - 2) * nx ?q = 1"
    by (simp_all add: ex_params_def)
  have w: "density ?q * accel ?q / 9 = 1 / 90" "density ?q * accel ?q / 36 = 1 / 360"
    by (simp_all add: ex_params_def)
  have rd: "get_speed (cells ex_grids) 0 m = Inr (real m)" if "m < 9" for m
    using that by (simp add: ex_grids_def get_speed_def upt_rec)
  have "arr_get ex_obstacles (0 + (ny ?q - 2) * nx ?q) = Inr 0 \<and>
      get_speed (cells ex_grids) (0 + (ny ?q - 2) * nx ?q) 3 = Inr 3 \<and>
      get_speed (cells ex_grids) (0 + (ny ?q - 2) * nx ?q) 6 = Inr 6 \<and>
      get_speed (cells ex_grids) (0 + (ny ?q - 2) * nx ?q) 7 = Inr 7 \<and>
      3 - density ?q * accel ?q / 9 > 0 \<and> 6 - density ?q * accel ?q / 36 > 0 \<and>
      7 - density ?q * accel ?q / 36 > 0"
    unfolding idx w using rd [of 3] rd [of 6] rd [of 7]
    by (simp add: ex_obstacles_def arr_get_def)
  from A [THEN conjunct2, THEN conjunct2, rule_format, OF i0, THEN conjunct1, rule_format, OF this]
  obtain v1 v5 v8 where
    v1: "get_speed (cells ex_grids) 0 1 = Inr v1" and
    sh: "\<And>m. get_speed (cells g0) 0 m =
       (if m = 7 then Inr (7 - 1 / 360) else if m = 6 then Inr (6 - 1 / 360)
        else if m = 3 then Inr (3 - 1 / 90) else if m = 8 then Inr (v8 + 1 / 360)
        else if m = 5 then Inr (v5 + 1 / 360) else if m = 1 then Inr (v1 + 1 / 90)
        else get_speed (cells ex_grids) 0 m)"
    unfolding idx w by blast
  have "v1 = 1" using v1 rd [of 1] by simp
  then have a3: "get_speed (cells g0) 0 1 = Inr (1 + 1 / 90)"
    and a4: "get_speed (cells g0) 0 7 = Inr (7 - 1 / 360)"
    and a5: "get_speed (cells g0) 0 0 = Inr 0"
    using sh [of 1] sh [of 7] sh [of 0] rd [of 0] by simp_all
  have "\<not> (\<exists>v3 v6 v7. arr_get ex_obstacles (1 + (ny ?q - 2) * nx ?q) = Inr 0 \<and>
      get_speed (cells ex_grids) (1 + (ny ?q - 2) * nx ?q) 3 = Inr v3 \<and>
      get_speed (cells ex_grids) (1 + (ny ?q - 2) * nx ?q) 6 = Inr v6 \<and>
      get_speed (cells ex_grids) (1 + (ny ?q - 2) * nx ?q) 7 = Inr v7 \<and>
      v3 - density ?q * accel ?q / 9 > 0 \<and> v6 - density ?q * accel ?q / 36 > 0 \<and>
      v7 - density ?q * accel ?q / 36 > 0)"
    unfolding idx by (simp add: ex_obstacles_def arr_get_def)
  from A [THEN conjunct2, THEN conjunct2, rule_format, OF i1, THEN conjunct2, rule_format, OF this, of 3]
  have a6: "get_speed (cells g0) 1 3 = Inr 13"
    unfolding idx by (simp add: ex_grids_def get_speed_def upt_rec)
  show ?thesis
    using a p r c P r1 r2 r3 v r4 C a1 s a2 a3 a4 a5 a6 by blast
qed

text \<open>
  Claim C3 as stated fails for propagate: on the example grid, whose cell \<open>(1, 0)\<close> is an
  obstacle, the populations of the fluid cells of the main grid sum to 558, and those of
  the fluid cells of the scratch space after propagate to 498.
\<close>

theorem propagate_changes_fluid_density:
  "\<exists>g'. propagate ex_params ex_grids = Inr g' \<and>
     fluid_density ex_params ex_obstacles (cells ex_grids) = Inr 558 \<and>
     fluid_density ex_params ex_obstacles (tmp_cells g') = Inr 498"
  by (simp add: fluid_density_def kernel_defs ex_defs eval_defs)

subsection \<open>When propagate returns\<close>

lemma tmp_from_cells_returns:
  assumes "get_speed (cells g) src k' = Inr v" "0 \<le> dst" "dst < int (length (tmp_cells g))"
  shows "\<exists>g'. tmp_from_cells dst k src k' g = Inr g' \<and> cells g' = cells g \<and>
              length (tmp_cells g') = length (tmp_cells g)"
  using assms by (simp add: tmp_from_cells_def set_speed_def)

lemma cell_index_bounds:
  fixes x y w h :: int
  assumes "0 \<le> x" "x < w" "0 \<le> y" "y < h"
  shows "0 \<le> x + y * w" and "x + y * w < w * h"
proof -
  have w: "0 < w" using assms by linarith
  show "0 \<le> x + y * w" using assms w by simp
  have "y * w \<le> (h - 1) * w" using assms w by (intro mult_right_mono) simp_all
  then show "x + y * w < w * h" using assms by (simp add: algebra_simps)
qed

lemma pull_source_bounds:
  assumes "k < 9" "0 \<le> ii" "ii < nx p" "0 \<le> jj" "jj < ny p"
  shows "0 \<le> pull_source p k ii jj" and "pull_source p k ii jj < nx p * ny p"
proof -
  obtain A B where
    "pull_source p k ii jj = (ii + A k) mod nx p + ((jj + B k) mod ny p) * nx p"
    using pull_source_shift [of p] assms by blast
  moreover have "0 \<le> (ii + A k) mod nx p" "(ii + A k) mod nx p < nx p"
    "0 \<le> (jj + B k) mod ny p" "(jj + B k) mod ny p < ny p"
    using assms by simp_all
  ultimately show "0 \<le> pull_source p k ii jj" and "pull_source p k ii jj < nx p * ny p"
    using cell_index_bounds [of "(ii + A k) mod nx p" "nx p" "(jj + B k) mod ny p" "ny p"]
    by simp_all
qed

lemma propagate_cell_returns:
  assumes cell: "0 \<le> ii" "ii < nx p" "0 \<le> jj" "jj < ny p"
    and len: "nx p * ny p \<le> int (length (tmp_cells g))"
    and written: "\<And>j m. 0 \<le> j \<Longrightarrow> j < nx p * ny p \<Longrightarrow> m < 9 \<Longrightarrow> \<exists>v. get_speed (cells g) j m = Inr v"
  shows "\<exists>g'. propagate_cell p jj ii g = Inr g' \<and> cells g' = cells g \<and>
              length (tmp_cells g') = length (tmp_cells g)"
proof -
  define i where "i = ii + jj * nx p"
  have i: "0 \<le> i" "i < int (length (tmp_cells g))"
    using cell_index_bounds [OF cell] len unfolding i_def by simp_all
  have src: "\<exists>v. get_speed (cells g) (pull_source p m ii jj) m = Inr v" if "m < 9" for m
    using written pull_source_bounds [OF that cell] that by blast
  have xw: "(if ii = 0 then ii + nx p - 1 else ii - 1) = (ii - 1) mod nx p"
    using cell(1,2) by (rule west_index)
  have ys: "(if jj = 0 then jj + ny p - 1 else jj - 1) = (jj - 1) mod ny p"
    using cell(3,4) by (rule west_index)
  have ps: "pull_source p 0 ii jj = i"
    "pull_source p 1 ii jj = (ii - 1) mod nx p + jj * nx p"
    "pull_source p 2 ii jj = ii + (jj - 1) mod ny p * nx p"
    "pull_source p 3 ii jj = (ii + 1) mod nx p + jj * nx p"
    "pull_source p 4 ii jj = ii + (jj + 1) mod ny p * nx p"
    "pull_source p 5 ii jj = (ii - 1) mod nx p + (jj - 1) mod ny p * nx p"
    "pull_source p 6 ii jj = (ii + 1) mod nx p + (jj - 1) mod ny p * nx p"
    "pull_source p 7 ii jj = (ii + 1) mod nx p + (jj + 1) mod ny p * nx p"
    "pull_source p 8 ii jj = (ii - 1) mod nx p + (jj + 1) mod ny p * nx p"
    by (simp_all add: pull_source_def i_def)
  from src [of 0] obtain v0 where "get_speed (cells g) i 0 = Inr v0" unfolding ps by auto
  from tmp_from_cells_returns [OF this i, of 0] obtain g1 where
    s0: "tmp_from_cells i 0 i 0 g = Inr g1" and c1: "cells g1 = cells g"
    and l1: "length (tmp_cells g1) = length (tmp_cells g)" by blast
  from src [of 1] obtain v1 where "get_speed (cells g1) ((ii - 1) mod nx p + jj * nx p) 1 = Inr v1"
    unfolding ps c1 by auto
  from tmp_from_cells_returns [OF this, of i 1] i l1 obtain g2 where
    s1: "tmp_from_cells i 1 ((ii - 1) mod nx p + jj * nx p) 1 g1 = Inr g2" and c2: "cells g2 = cells g"
    and l2: "length (tmp_cells g2) = length (tmp_cells g)" using c1 by auto
  from src [of 2] obtain v2 where "get_speed (cells g2) (ii + (jj - 1) mod ny p * nx p) 2 = Inr v2"
    unfolding ps c2 by auto
  from tmp_from_cells_returns [OF this, of i 2] i l2 obtain g3 where
    s2: "tmp_from_cells i 2 (ii + (jj - 1) mod ny p * nx p) 2 g2 = Inr g3" and c3: "cells g3 = cells g"
    and l3: "length (tmp_cells g3) = length (tmp_cells g)" using c2 by auto
  from src [of 3] obtain v3 where "get_speed (cells g3) ((ii + 1) mod nx p + jj * nx p) 3 = Inr v3"
    unfolding ps c3 by auto
  from tmp_from_cells_returns [OF this, of i 3] i l3 obtain g4 where
    s3: "tmp_from_cells i 3 ((ii + 1) mod nx p + jj * nx p) 3 g3 = Inr g4" and c4: "cells g4 = cells g"
    and l4: "length (tmp_cells g4) = length (tmp_cells g)" using c3 by auto
  from src [of 4] obtain v4 where "get_speed (cells g4) (ii + (jj + 1) mod ny p * nx p) 4 = Inr v4"
    unfolding ps c4 by auto
  from tmp_from_cells_returns [OF this, of i 4] i l4 obtain g5 where
    s4: "tmp_from_cells i 4 (ii + (jj + 1) mod ny p * nx p) 4 g4 = Inr g5" and c5: "cells g5 = cells g"
    and l5: "length (tmp_cells g5) = length (tmp_cells g)" using c4 by auto
  from src [of 5] obtain v5 where
    "get_speed (cells g5) ((ii - 1) mod nx p + (jj - 1) mod ny p * nx p) 5 = Inr v5"
    unfolding ps c5 by auto
  from tmp_from_cells_returns [OF this, of i 5] i l5 obtain g6 where
    s5: "tmp_from_cells i 5 ((ii - 1) mod nx p + (jj - 1) mod ny p * nx p) 5 g5 = Inr g6"
    and c6: "cells g6 = cells g"
    and l6: "length (tmp_cells g6) = length (tmp_cells g)" using c5 by auto
  from src [of 6] obtain v6 where
    "get_speed (cells g6) ((ii + 1) mod nx p + (jj - 1) mod ny p * nx p) 6 = Inr v6"
    unfolding ps c6 by auto
  from tmp_from_cells_returns [OF this, of i 6] i l6 obtain g7 where
    s6: "tmp_from_cells i 6 ((ii + 1) mod nx p + (jj - 1) mod ny p * nx p) 6 g6 = Inr g7"
    and c7: "cells g7 = cells g"
    and l7: "length (tmp_cells g7) = length (tmp_cells g)" using c6 by auto
  from src [of 7] obtain v7 where
    "get_speed (cells g7) ((ii + 1) mod nx p + (jj + 1) mod ny p * nx p) 7 = Inr v7"
    unfolding ps c7 by auto
  from tmp_from_cells_returns [OF this, of i 7] i l7 obtain g8 where
    s7: "tmp_from_cells i 7 ((ii + 1) mod nx p + (jj + 1) mod ny p * nx p) 7 g7 = Inr g8"
    and c8: "cells g8 = cells g"
    and l8: "length (tmp_cells g8) = length (tmp_cells g)" using c7 by auto
  from src [of 8] obtain v8 where
    "get_speed (cells g8) ((ii - 1) mod nx p + (jj + 1) mod ny p * nx p) 8 = Inr v8"
    unfolding ps c8 by auto
  from tmp_from_cells_returns [OF this, of i 8] i l8 obtain g9 where
    s8: "tmp_from_cells i 8 ((ii - 1) mod nx p + (jj + 1) mod ny p * nx p) 8 g8 = Inr g9"
    and c9: "cells g9 = cells g"
    and l9: "length (tmp_cells g9) = length (tmp_cells g)" using c8 by auto
  have "propagate_cell p jj ii g = Inr g9"
    unfolding propagate_cell_def Let_def xw ys i_def [symmetric]
    by (simp only: run_stmts.simps bind_err_Inr s0 s1 s2 s3 s4 s5 s6 s7 s8)
  then show ?thesis using c9 l9 by blast
qed

text \<open>
  propagate returns when both grids hold the \<open>nx * ny\<close> cells of the rows below \<open>ny\<close> and
  every population of these cells of the main grid has been written.
\<close>

lemma propagate_returns:
  assumes len: "nx p * ny p \<le> int (length (tmp_cells g))"
    and written: "\<And>j m. 0 \<le> j \<Longrightarrow> j < nx p * ny p \<Longrightarrow> m < 9 \<Longrightarrow> \<exists>v. get_speed (cells g) j m = Inr v"
  shows "\<exists>g'. propagate p g = Inr g'"
proof -
  define I where "I = (\<lambda>(r::int) (c::int) (t::grids).
     cells t = cells g \<and> length (tmp_cells t) = length (tmp_cells g))"
  have "\<exists>g'. propagate p g = Inr g' \<and> I (max 0 (ny p)) 0 g'"
    unfolding propagate_def
  proof (rule grid_loop_total [where I = I])
    show "I 0 0 g" by (simp add: I_def)
  next
    fix r c t
    assume h: "0 \<le> r" "r < ny p" "0 \<le> c" "c < nx p" "I r c t"
    have "\<exists>t'. propagate_cell p r c t = Inr t' \<and> cells t' = cells t \<and>
              length (tmp_cells t') = length (tmp_cells t)"
      using h(5) len written unfolding I_def by (intro propagate_cell_returns h(1-4)) simp_all
    then show "\<exists>t'. propagate_cell p r c t = Inr t' \<and> I r (c + 1) t'"
      using h(5) unfolding I_def by auto
  next
    fix r t
    assume "I r (max 0 (nx p)) t"
    then show "I (r + 1) 0 t" by (simp add: I_def)
  qed
  then show ?thesis by blast
qed

text \<open>
  Claim C1. On every grid configuration, that is whenever the scratch grid has room for
  the \<open>nx * ny\<close> cells and every population of the first \<open>nx * ny\<close> cells of the main grid
  holds a value, propagate returns; the main grid is as it was; for every cell \<open>(ii, jj)\<close>
  of the grid and every speed \<open>k\<close> the scratch cell \<open>(ii, jj)\<close> holds at speed \<open>k\<close> the
  population that the main grid holds at speed \<open>k\<close> of the cell the pull scheme names:
  the cell itself for speed 0, west for 1, south for 2, east for 3, north for 4,
  south-west for 5, south-east for 6, north-east for 7, north-west for 8, with periodic
  wrap in both axes; and nothing else of the scratch grid is written.
\<close>

theorem propagate_pull_scheme:
  assumes len: "nx p * ny p \<le> int (length (tmp_cells g))"
    and written: "\<forall>j m. 0 \<le> j \<and> j < nx p * ny p \<and> m < 9 \<longrightarrow>
                    (\<exists>v. get_speed (cells g) j m = Inr v)"
  shows "\<exists>g'. propagate p g = Inr g' \<and> cells g' = cells g \<and>
     (\<forall>ii jj k. 0 \<le> ii \<and> ii < nx p \<and> 0 \<le> jj \<and> jj < ny p \<and> k < 9 \<longrightarrow>
        (\<exists>v. get_speed (cells g) (pull_source p k ii jj) k = Inr v \<and>
             get_speed (tmp_cells g') (ii + jj * nx p) k = Inr v)) \<and>
     (\<forall>j m. \<not> (\<exists>ii jj. 0 \<le> ii \<and> ii < nx p \<and> 0 \<le> jj \<and> jj < ny p \<and> j = ii + jj * nx p) \<longrightarrow>
        get_speed (tmp_cells g') j m = get_speed (tmp_cells g) j m)"
proof -
  from propagate_returns [OF len] written obtain g' where run: "propagate p g = Inr g'"
    by blast
  note eff = propagate_effect [OF run]
  have pull: "\<exists>v. get_speed (cells g) (pull_source p k ii jj) k = Inr v \<and>
             get_speed (tmp_cells g') (ii + jj * nx p) k = Inr v"
    if c: "0 \<le> ii \<and> ii < nx p \<and> 0 \<le> jj \<and> jj < ny p \<and> k < 9" for ii jj k
  proof -
    have co: "(ii + jj * nx p) mod nx p = ii" "(ii + jj * nx p) div nx p = jj"
      using cell_coords [of ii "nx p" jj] c by simp_all
    have "\<exists>i j. 0 \<le> i \<and> i < nx p \<and> 0 \<le> j \<and> j < ny p \<and> ii + jj * nx p = i + j * nx p"
      using c by blast
    then have "get_speed (tmp_cells g') (ii + jj * nx p) k
        = get_speed (cells g) (pull_source p k ii jj) k"
      using eff(4) [of "ii + jj * nx p" k] co c by simp
    moreover obtain v where "get_speed (cells g) (pull_source p k ii jj) k = Inr v"
      using eff(3) [of ii jj k] c by blast
    ultimately show ?thesis by simp
  qed
  have frame: "get_speed (tmp_cells g') j m = get_speed (tmp_cells g) j m"
    if "\<not> (\<exists>ii jj. 0 \<le> ii \<and> ii < nx p \<and> 0 \<le> jj \<and> jj < ny p \<and> j = ii + jj * nx p)" for j m
    using eff(4) [of j m] that by (simp only: if_False simp_thms)
  show ?thesis using run eff(1) pull frame by blast
qed

lemma wide_grids_written:
  "0 \<le> j \<and> j < 6 \<and> m < 9 \<Longrightarrow> get_speed (cells wide_grids) j m = Inr (real (10 * nat j + m))"
proof -
  assume a: "0 \<le> j \<and> j < 6 \<and> m < 9"
  then have n: "nat j < 6" by linarith
  have "(map (\<lambda>i k. if k < 9 then Some (real (10 * i + k)) else None) [0..<6] ! nat j) m
      = Some (real (10 * nat j + m))"
    using n a by (simp only: nth_map length_upt nth_upt) simp
  then show ?thesis using a by (simp add: wide_grids_def get_speed_def)
qed

theorem propagate_pull_scheme_witness:
  "\<exists>g'. propagate wide_params wide_grids = Inr g' \<and> cells g' = cells wide_grids \<and>
     pull_source wide_params 5 0 0 = 5 \<and>
     get_speed (cells wide_grids) 5 5 = Inr 55 \<and>
     get_speed (tmp_cells g') (0 + 0 * nx wide_params) 5 = Inr 55 \<and>
     pull_source wide_params 3 1 1 = 5 \<and>
     get_speed (cells wide_grids) 5 3 = Inr 53 \<and>
     get_speed (tmp_cells g') (1 + 1 * nx wide_params) 3 = Inr 53 \<and>
     get_speed (tmp_cells g') 6 0 = get_speed (tmp_cells wide_grids) 6 0"
proof -
  have len: "nx wide_params * ny wide_params \<le> int (length (tmp_cells wide_grids))"
    by (simp add: wide_params_def wide_grids_def)
  have written: "\<forall>j m. 0 \<le> j \<and> j < nx wide_params * ny wide_params \<and> m < 9 \<longrightarrow>
                    (\<exists>v. get_speed (cells wide_grids) j m = Inr v)"
    using wide_grids_written by (simp add: wide_params_def)
  from propagate_pull_scheme [OF len written] obtain g' where
    run: "propagate wide_params wide_grids = Inr g'" and c: "cells g' = cells wide_grids"
    and pull: "\<And>ii jj k. 0 \<le> ii \<and> ii < nx wide_params \<and> 0 \<le> jj \<and> jj < ny wide_params \<and> k < 9 \<Longrightarrow>
        \<exists>v. get_speed (cells wide_grids) (pull_source wide_params k ii jj) k = Inr v \<and>
             get_speed (tmp_cells g') (ii + jj * nx wide_params) k = Inr v"
    and frame: "\<And>j m. \<not> (\<exists>ii jj. 0 \<le> ii \<and> ii < nx wide_params \<and> 0 \<le> jj \<and> jj < ny wide_params \<and>
                   j = ii + jj * nx wide_params) \<Longrightarrow>
        get_speed (tmp_cells g') j m = get_speed (tmp_cells wide_grids) j m"
    by blast
  have s5: "pull_source wide_params 5 0 0 = 5" and s3: "pull_source wide_params 3 1 1 = 5"
    by (simp_all add: pull_source_def wide_params_def)
  have v5: "get_speed (cells wide_grids) 5 5 = Inr 55"
    and v3: "get_speed (cells wide_grids) 5 3 = Inr 53"
    using wide_grids_written [of 5 5] wide_grids_written [of 5 3] by simp_all
  have t5: "get_speed (tmp_cells g') (0 + 0 * nx wide_params) 5 = Inr 55"
    using pull [of 0 0 5] s5 v5 by (simp add: wide_params_def)
  have t3: "get_speed (tmp_cells g') (1 + 1 * nx wide_params) 3 = Inr 53"
    using pull [of 1 1 3] s3 v3 by (simp add: wide_params_def)
  have "\<not> (\<exists>ii jj. 0 \<le> ii \<and> ii < nx wide_params \<and> 0 \<le> jj \<and> jj < ny wide_params \<and>
                   (6::int) = ii + jj * nx wide_params)"
  proof
    assume "\<exists>ii jj. 0 \<le> ii \<and> ii < nx wide_params \<and> 0 \<le> jj \<and> jj < ny wide_params \<and>
                   (6::int) = ii + jj * nx wide_params"
    then obtain ii jj :: int where "0 \<le> ii" "ii < 3" "0 \<le> jj" "jj < 2" "6 = ii + jj * 3"
      by (auto simp: wide_params_def)
    then show False by linarith
  qed
  from frame [OF this] have f: "get_speed (tmp_cells g') 6 0 = get_speed (tmp_cells wide_grids) 6 0" .
  show ?thesis using run c s5 s3 v5 v3 t5 t3 f by blast
qed

subsection \<open>The trace of the main loop\<close>

lemma iteration_Inr:
  assumes "iteration sz tt (tr, s) = Inr (tr', s')"
  shows "tr' = tr @ [Accelerate, Propagate, Rebound, Collide, Average]"
    and "params s' = params s" and "obstacles s' = obstacles s"
proof -
  from assms obtain tr1 g1 avs where
    ts: "timestep (params s) (obstacles s) (tr, grid s) = Inr (tr1, g1)"
    and "tr' = tr1 @ [Average]" and s': "s' = s\<lparr>grid := g1, av_vels := avs\<rparr>"
    by (auto simp: iteration_def Let_def bind_err_eq_Inr)
  then show "tr' = tr @ [Accelerate, Propagate, Rebound, Collide, Average]"
    using timestep_Inr(1) [OF ts] by simp
  show "params s' = params s" "obstacles s' = obstacles s" using s' by simp_all
qed

text \<open>
  The main loop, when it returns, has run the five substeps \<open>maxIters\<close> times over, with no
  exchange of ghost rows anywhere.
\<close>

lemma main_loop_order:
  assumes run: "main_loop sz (tr, s) = Inr (tr', s')"
  shows "tr' = tr @ concat (replicate (nat (maxIters (params s)))
                     [Accelerate, Propagate, Rebound, Collide, Average])"
proof -
  let ?step = "[Accelerate, Propagate, Rebound, Collide, Average]"
  define I where "I = (\<lambda>(k::int) (ts :: substep list \<times> sim_state).
     params (snd ts) = params s \<and> fst ts = tr @ concat (replicate (nat k) ?step))"
  have "I (max 0 (maxIters (params s))) (tr', s')"
  proof (rule for_loop_invariant [where I = I, OF run [unfolded main_loop_def snd_conv]])
    show "I 0 (tr, s)" by (simp add: I_def)
  next
    fix k and t t' :: "substep list \<times> sim_state"
    assume h: "0 \<le> k" "k < maxIters (params s)" "I k t" "iteration sz k t = Inr t'"
    obtain a b where t: "t = (a, b)" by (cases t)
    obtain a' b' where t': "t' = (a', b')" by (cases t')
    note eff = iteration_Inr [OF h(4) [unfolded t t']]
    have "nat (k + 1) = Suc (nat k)" using h(1) by simp
    moreover have "concat (replicate (Suc n) ?step) = concat (replicate n ?step) @ ?step" for n
      by (induction n) simp_all
    ultimately show "I (k + 1) t'"
      using h(3) eff unfolding I_def t t' by simp
  qed
  then show ?thesis unfolding I_def by (cases "0 \<le> maxIters (params s)") (simp_all add: max_def)
qed

subsection \<open>The obstacle masks\<close>

lemma arr_get_arr_set:
  assumes "arr_set a i v = Inr a'"
  shows "length a' = length a" and "arr_get a' j = (if j = i then Inr v else arr_get a j)"
  using assms by (auto simp: arr_set_def arr_get_def split: if_splits)

text \<open>
  The local mask that initialise fills is a copy of the rows \<open>0 \<le> jj < local_ny\<close> of the
  global mask, whatever the rank of the caller: the copy has no offset.
\<close>

lemma copy_obstacles_effect:
  assumes run: "copy_obstacles p local_ny tot ob = Inr ob'"
    and c: "0 \<le> ii" "ii < nx p" "0 \<le> jj" "jj < local_ny"
  shows "\<exists>v. arr_get tot (ii + jj * nx p) = Inr v \<and> arr_get ob' (ii + jj * nx p) = Inr v"
proof -
  define I where "I = (\<lambda>r c (t :: int option list).
     \<forall>i j. 0 \<le> i \<and> i < nx p \<and> 0 \<le> j \<and> (j < r \<or> j = r \<and> i < c) \<longrightarrow>
        (\<exists>v. arr_get tot (i + j * nx p) = Inr v \<and> arr_get t (i + j * nx p) = Inr v))"
  have fin: "I (max 0 local_ny) 0 ob'"
  proof (rule grid_loop_invariant [where I = I, OF run [unfolded copy_obstacles_def]])
    show "I 0 0 ob" unfolding I_def by auto
  next
    fix r c t t'
    assume h: "0 \<le> r" "r < local_ny" "0 \<le> c" "c < nx p" "I r c t"
      "bind_err (arr_get tot (c + r * nx p)) (\<lambda>v. arr_set t (c + r * nx p) v) = Inr t'"
    then obtain v where v: "arr_get tot (c + r * nx p) = Inr v"
      and st: "arr_set t (c + r * nx p) v = Inr t'"
      by (auto simp: bind_err_eq_Inr)
    note eff = arr_get_arr_set(2) [OF st]
    show "I r (c + 1) t'" unfolding I_def
    proof (intro allI impI)
      fix i j
      assume a: "0 \<le> i \<and> i < nx p \<and> 0 \<le> j \<and> (j < r \<or> j = r \<and> i < c + 1)"
      show "\<exists>v. arr_get tot (i + j * nx p) = Inr v \<and> arr_get t' (i + j * nx p) = Inr v"
      proof (cases "i + j * nx p = c + r * nx p")
        case True
        then show ?thesis using v eff by simp
      next
        case False
        then have "\<not> (j = r \<and> i = c)" by auto
        then have "j < r \<or> j = r \<and> i < c" using a by linarith
        then show ?thesis using h(5) a False eff unfolding I_def by simp
      qed
    qed
  next
    fix r t
    assume h: "0 \<le> r" "r < local_ny" "I r (max 0 (nx p)) t"
    show "I (r + 1) 0 t" unfolding I_def
    proof (intro allI impI)
      fix i j
      assume a: "0 \<le> i \<and> i < nx p \<and> 0 \<le> j \<and> (j < r + 1 \<or> j = r + 1 \<and> i < 0)"
      then have "j < r \<or> j = r \<and> i < max 0 (nx p)" by linarith
      then show "\<exists>v. arr_get tot (i + j * nx p) = Inr v \<and> arr_get t (i + j * nx p) = Inr v"
        using h(3) a unfolding I_def by blast
    qed
  qed
  have "jj < max 0 local_ny" using c by simp
  then show ?thesis using fin c unfolding I_def by blast
qed

lemma initialise_local_mask:
  assumes init: "initialise paramfile obstaclefile sz = Inr s"
    and c: "0 \<le> ii" "ii < nx (params s)" "0 \<le> jj" "jj < ny (params s) sdiv sz"
  shows "\<exists>v. arr_get (obstacles_total s) (ii + jj * nx (params s)) = Inr v \<and>
             arr_get (obstacles s) (ii + jj * nx (params s)) = Inr v"
proof -
  from initialise_Inr [OF init] have
    "copy_obstacles (params s) (ny (params s) sdiv sz) (obstacles_total s)
         (replicate (nat (ny (params s) sdiv sz * nx (params s))) None) = Inr (obstacles s)"
    by auto
  then show ?thesis using c by (rule copy_obstacles_effect)
qed

subsection \<open>When accelerate\_flow returns\<close>

lemma add_to_speed_returns:
  assumes "get_speed (cells g) i k = Inr v"
  shows "\<exists>g'. add_to_speed i k w g = Inr g' \<and>
     (\<forall>j m. (\<exists>u. get_speed (cells g) j m = Inr u) \<longrightarrow> (\<exists>u. get_speed (cells g') j m = Inr u))"
proof -
  from assms have "0 \<le> i \<and> i < int (length (cells g))" by (simp add: get_speed_Inr)
  then obtain c where c: "set_speed (cells g) i k (v + w) = Inr c" by (simp add: set_speed_Inr)
  have "add_to_speed i k w g = Inr (g\<lparr>cells := c\<rparr>)"
    using assms c by (simp add: add_to_speed_def)
  then show ?thesis using get_speed_set_speed [OF c] by simp
qed

lemma sub_from_speed_returns:
  assumes "get_speed (cells g) i k = Inr v"
  shows "\<exists>g'. sub_from_speed i k w g = Inr g' \<and>
     (\<forall>j m. (\<exists>u. get_speed (cells g) j m = Inr u) \<longrightarrow> (\<exists>u. get_speed (cells g') j m = Inr u))"
proof -
  from assms have "0 \<le> i \<and> i < int (length (cells g))" by (simp add: get_speed_Inr)
  then obtain c where c: "set_speed (cells g) i k (v - w) = Inr c" by (simp add: set_speed_Inr)
  have "sub_from_speed i k w g = Inr (g\<lparr>cells := c\<rparr>)"
    using assms c by (simp add: sub_from_speed_def)
  then show ?thesis using get_speed_set_speed [OF c] by simp
qed

lemma accelerate_cell_returns:
  assumes ob: "arr_get obs (ii + (ny p - 2) * nx p) = Inr ob"
    and r: "\<And>m. m < 9 \<Longrightarrow> \<exists>v. get_speed (cells g) (ii + (ny p - 2) * nx p) m = Inr v"
  shows "\<exists>g'. accelerate_cell p obs ii g = Inr g' \<and>
     (\<forall>j m. (\<exists>u. get_speed (cells g) j m = Inr u) \<longrightarrow> (\<exists>u. get_speed (cells g') j m = Inr u))"
proof -
  define i where "i = ii + (ny p - 2) * nx p"
  define w1 where "w1 = density p * accel p / 9"
  define w2 where "w2 = density p * accel p / 36"
  define R where "R = (\<lambda>(a::grids) (b::grids).
     \<forall>j m. (\<exists>u. get_speed (cells a) j m = Inr u) \<longrightarrow> (\<exists>u. get_speed (cells b) j m = Inr u))"
  have r': "\<exists>v. get_speed (cells g) i m = Inr v" if "m < 9" for m
    using r [OF that] unfolding i_def .
  obtain v1 where v1: "get_speed (cells g) i 1 = Inr v1" using r' [of 1] by auto
  obtain s3 where s3: "get_speed (cells g) i 3 = Inr s3" using r' [of 3] by auto
  obtain s6 where s6: "get_speed (cells g) i 6 = Inr s6" using r' [of 6] by auto
  obtain s7 where s7: "get_speed (cells g) i 7 = Inr s7" using r' [of 7] by auto
  from add_to_speed_returns [OF v1, of w1] obtain g1 where
    g1: "add_to_speed i 1 w1 g = Inr g1" and R1: "R g g1" unfolding R_def by blast
  have "\<exists>v. get_speed (cells g1) i 5 = Inr v" using r' [of 5] R1 unfolding R_def by simp
  then obtain v5 where v5: "get_speed (cells g1) i 5 = Inr v5" by blast
  from add_to_speed_returns [OF v5, of w2] obtain g2 where
    g2: "add_to_speed i 5 w2 g1 = Inr g2" and R2: "R g1 g2" unfolding R_def by blast
  have "\<exists>v. get_speed (cells g2) i 8 = Inr v" using r' [of 8] R1 R2 unfolding R_def by simp
  then obtain v8 where v8: "get_speed (cells g2) i 8 = Inr v8" by blast
  from add_to_speed_returns [OF v8, of w2] obtain g3 where
    g3: "add_to_speed i 8 w2 g2 = Inr g3" and R3: "R g2 g3" unfolding R_def by blast
  have "\<exists>v. get_speed (cells g3) i 3 = Inr v" using r' [of 3] R1 R2 R3 unfolding R_def by simp
  then obtain v3 where v3: "get_speed (cells g3) i 3 = Inr v3" by blast
  from sub_from_speed_returns [OF v3, of w1] obtain g4 where
    g4: "sub_from_speed i 3 w1 g3 = Inr g4" and R4: "R g3 g4" unfolding R_def by blast
  have "\<exists>v. get_speed (cells g4) i 6 = Inr v"
    using r' [of 6] R1 R2 R3 R4 unfolding R_def by simp
  then obtain v6 where v6: "get_speed (cells g4) i 6 = Inr v6" by blast
  from sub_from_speed_returns [OF v6, of w2] obtain g5 where
    g5: "sub_from_speed i 6 w2 g4 = Inr g5" and R5: "R g4 g5" unfolding R_def by blast
  have "\<exists>v. get_speed (cells g5) i 7 = Inr v"
    using r' [of 7] R1 R2 R3 R4 R5 unfolding R_def by simp
  then obtain v7 where v7: "get_speed (cells g5) i 7 = Inr v7" by blast
  from sub_from_speed_returns [OF v7, of w2] obtain g6 where
    g6: "sub_from_speed i 7 w2 g5 = Inr g6" and R6: "R g5 g6" unfolding R_def by blast
  have shift: "run_stmts [add_to_speed i 1 w1, add_to_speed i 5 w2, add_to_speed i 8 w2,
         sub_from_speed i 3 w1, sub_from_speed i 6 w2, sub_from_speed i 7 w2] g = Inr g6"
    by (simp only: run_stmts.simps bind_err_Inr g1 g2 g3 g4 g5 g6)
  have Rg: "R g g" unfolding R_def by simp
  have R6': "R g g6" using R1 R2 R3 R4 R5 R6 unfolding R_def by simp
  have "accelerate_cell p obs ii g = Inr g \<or> accelerate_cell p obs ii g = Inr g6"
    unfolding accelerate_cell_def Let_def i_def [symmetric] w1_def [symmetric] w2_def [symmetric]
    using ob [folded i_def] s3 s6 s7 shift by simp
  then show ?thesis using Rg R6' unfolding R_def by blast
qed

lemma accelerate_flow_returns:
  assumes obs: "\<And>ii. 0 \<le> ii \<Longrightarrow> ii < nx p \<Longrightarrow>
                  \<exists>ob. arr_get obs (ii + (ny p - 2) * nx p) = Inr ob"
    and r: "\<And>ii m. 0 \<le> ii \<Longrightarrow> ii < nx p \<Longrightarrow> m < 9 \<Longrightarrow>
                  \<exists>v. get_speed (cells g) (ii + (ny p - 2) * nx p) m = Inr v"
  shows "\<exists>g'. accelerate_flow p g obs = Inr g'"
proof -
  define I where "I = (\<lambda>(k::int) (t::grids).
     \<forall>j m. (\<exists>u. get_speed (cells g) j m = Inr u) \<longrightarrow> (\<exists>u. get_speed (cells t) j m = Inr u))"
  have init: "I 0 g" unfolding I_def by simp
  have "\<exists>g'. for_loop 0 (nx p) (accelerate_cell p obs) g = Inr g' \<and> I (max 0 (nx p)) g'"
  proof (rule for_loop_total [where I = I, OF init])
    fix k t
    assume h: "0 \<le> k" "k < nx p" "I k t"
    from obs [OF h(1,2)] obtain ob where ob: "arr_get obs (k + (ny p - 2) * nx p) = Inr ob"
      by blast
    have "\<exists>v. get_speed (cells t) (k + (ny p - 2) * nx p) m = Inr v" if "m < 9" for m
      using r [OF h(1,2) that] h(3) unfolding I_def by blast
    from accelerate_cell_returns [OF ob this] obtain t' where
      "accelerate_cell p obs k t = Inr t'"
      "\<forall>j m. (\<exists>u. get_speed (cells t) j m = Inr u) \<longrightarrow> (\<exists>u. get_speed (cells t') j m = Inr u)"
      by blast
    then show "\<exists>t'. accelerate_cell p obs k t = Inr t' \<and> I (k + 1) t'"
      using h(3) unfolding I_def by blast
  qed
  then show ?thesis unfolding accelerate_flow_def by blast
qed

subsection \<open>The first iteration of a run\<close>

text \<open>
  On one rank, with at least one column and three rows, the driven row \<open>ny - 2\<close> is an
  interior row of the grid and a row of the local mask: the first accelerate\_flow returns,
  and the first propagate reads row 0, which nothing has written.
\<close>

lemma first_propagate_reached:
  assumes init: "initialise paramfile obstaclefile 1 = Inr s"
    and nx1: "1 \<le> nx (params s)" and ny3: "3 \<le> ny (params s)"
  shows "\<exists>g1. accelerate_flow (params s) (grid s) (obstacles s) = Inr g1 \<and>
              propagate (params s) g1 = Inl Uninit_read"
    and "timestep (params s) (obstacles s) (tr, grid s) = Inl Uninit_read"
proof -
  define p where "p = params s"
  have row: "1 \<le> ny p - 2 \<and> ny p - 2 \<le> ny p sdiv 1" "0 \<le> ny p - 2" "ny p - 2 < ny p sdiv 1"
    using ny3 unfolding p_def by simp_all
  have "\<exists>g1. accelerate_flow p (grid s) (obstacles s) = Inr g1"
  proof (rule accelerate_flow_returns)
    fix ii
    assume ii: "0 \<le> ii" "ii < nx p"
    show "\<exists>ob. arr_get (obstacles s) (ii + (ny p - 2) * nx p) = Inr ob"
      using initialise_local_mask [OF init, of ii "ny p - 2"] ii row unfolding p_def by blast
    fix m :: nat
    assume "m < 9"
    then show "\<exists>v. get_speed (cells (grid s)) (ii + (ny p - 2) * nx p) m = Inr v"
      using initialise_rows [OF init, of ii m] ii row unfolding p_def by blast
  qed
  then obtain g1 where g1: "accelerate_flow p (grid s) (obstacles s) = Inr g1" by blast
  have u: "get_speed (cells (grid s)) (0 + 0 * nx p) 0 = Inl Uninit_read"
    using initialise_rows [OF init, of 0 0] nx1 unfolding p_def by simp
  have "get_speed (cells g1) (0 + 0 * nx p) 0 = Inl Uninit_read"
    using accelerate_flow_effect(3) [OF g1, of 0] u by simp
  then have pr: "propagate p g1 = Inl Uninit_read"
    using nx1 ny3 unfolding p_def by (intro propagate_first_read) simp_all
  show "\<exists>g1. accelerate_flow (params s) (grid s) (obstacles s) = Inr g1 \<and>
              propagate (params s) g1 = Inl Uninit_read"
    using g1 pr unfolding p_def by blast
  show "timestep (params s) (obstacles s) (tr, grid s) = Inl Uninit_read"
    using g1 pr unfolding p_def by (simp add: timestep_def call_def)
qed

text \<open>The printout of the first iteration starts with \<^verbatim>\<open>cells[0].speeds[0]\<close>.\<close>

lemma print_grid_first_read:
  assumes "1 \<le> rows" "1 \<le> w" "get_speed g 0 0 = Inl e"
  shows "print_grid rows w g [] = Inl e"
proof -
  let ?cell = "\<lambda>aa bb. for_loop 0 9 (\<lambda>cc out.
       bind_err (get_speed g (bb + aa) (nat cc)) (\<lambda>v. Inr (out @ [v])))"
  have "bind_err (get_speed g (0 + 0) (nat 0)) (\<lambda>v. Inr ([] @ [v])) = Inl e"
    using assms(3) by simp
  then have c: "?cell 0 0 [] = Inl e"
    using for_loop_fails_first [of 0 9
        "\<lambda>cc out. bind_err (get_speed g (0 + 0) (nat cc)) (\<lambda>v. Inr (out @ [v]))" "[]" e]
    by simp
  have r: "for_loop 0 w (?cell 0) [] = Inl e"
    using for_loop_fails_first [of 0 w "?cell 0" "[]" e] c assms(2) by simp
  show ?thesis
    unfolding print_grid_def
    using for_loop_fails_first [of 0 rows "\<lambda>aa. for_loop 0 w (?cell aa)" "[]" e] r assms(1)
    by simp
qed

lemma first_iteration_uninit_read:
  assumes init: "initialise paramfile obstaclefile sz = Inr s"
    and nx1: "1 \<le> nx (params s)"
  shows "debug_state_timestep sz s = Inl Uninit_read"
    and "iteration sz 0 (tr, s) = Inl Uninit_read"
    and "1 \<le> maxIters (params s) \<Longrightarrow> main_loop sz (tr, s) = Inl Uninit_read"
proof -
  from initialise_Inr [OF init] have sz: "sz \<noteq> 0"
    and l: "0 \<le> ny (params s) sdiv sz * nx (params s)" by auto
  have rows: "1 \<le> ny (params s) sdiv sz + 2"
    using l nx1 by (simp add: zero_le_mult_iff)
  have "get_speed (cells (grid s)) 0 0 = Inl Uninit_read"
    using initialise_rows [OF init, of 0 0] nx1 by simp
  from print_grid_first_read [OF rows nx1 this]
  show d: "debug_state_timestep sz s = Inl Uninit_read"
    using sz by (simp add: debug_state_timestep_def Let_def)
  then show it: "iteration sz 0 (tr, s) = Inl Uninit_read"
    by (simp add: iteration_def)
  show "main_loop sz (tr, s) = Inl Uninit_read" if "1 \<le> maxIters (params s)"
    unfolding main_loop_def using that it by (intro for_loop_fails_first) simp_all
qed

lemma read_params_negative:
  "read_params negative_paramfile = Inr \<lparr>nx = - 1, ny = - 3, maxIters = 1, reynolds_dim = 1,
     density = 1 / 10, accel = 1 / 200, omega = 1\<rparr>"
  by (simp add: read_params_def negative_paramfile_def scan_defs)

text \<open>
  Claim C9, as amended. For every input with at least one column for which initialise
  returns, on any number of ranks: no population of row 0 of the main grid has been
  written when the main loop starts; the first iteration reads \<^verbatim>\<open>cells[0]\<close>, of that row,
  in its printout of the state, and ends there, and so does every run of at least one
  iteration. The first propagate reads that row too: with at least one row, row 1 pulls
  its speed 2 from row 0, accelerate\_flow, the only operation before propagate, never
  writes speed 0 of a cell, and propagate, whenever accelerate\_flow has returned, ends at
  its first read. On one rank with at least three rows accelerate\_flow does return
  and the first propagate is reached.
\<close>

theorem first_propagate_reads_unwritten:
  assumes init: "initialise paramfile obstaclefile sz = Inr s"
    and nx1: "1 \<le> nx (params s)"
  shows "(\<forall>ii k. 0 \<le> ii \<and> ii < nx (params s) \<and> k < 9 \<longrightarrow>
            get_speed (cells (grid s)) (ii + 0 * nx (params s)) k = Inl Uninit_read)
    \<and> (\<forall>tr. iteration sz 0 (tr, s) = Inl Uninit_read)
    \<and> (1 \<le> maxIters (params s) \<longrightarrow> (\<forall>tr. main_loop sz (tr, s) = Inl Uninit_read))
    \<and> (1 \<le> ny (params s) \<longrightarrow>
          pull_source (params s) 2 0 1 = 0 + 0 * nx (params s) \<and>
          (\<forall>g1. accelerate_flow (params s) (grid s) (obstacles s) = Inr g1 \<longrightarrow>
                propagate (params s) g1 = Inl Uninit_read))
    \<and> (sz = 1 \<and> 3 \<le> ny (params s) \<longrightarrow>
          (\<exists>g1. accelerate_flow (params s) (grid s) (obstacles s) = Inr g1 \<and>
                propagate (params s) g1 = Inl Uninit_read))"
proof (intro conjI allI impI)
  fix ii and k :: nat
  assume "0 \<le> ii \<and> ii < nx (params s) \<and> k < 9"
  then show "get_speed (cells (grid s)) (ii + 0 * nx (params s)) k = Inl Uninit_read"
    using initialise_rows [OF init, of ii k] by blast
next
  fix tr
  show "iteration sz 0 (tr, s) = Inl Uninit_read"
    by (rule first_iteration_uninit_read(2) [OF init nx1])
next
  fix tr
  assume "1 \<le> maxIters (params s)"
  then show "main_loop sz (tr, s) = Inl Uninit_read"
    by (rule first_iteration_uninit_read(3) [OF init nx1])
next
  assume "1 \<le> ny (params s)"
  then show "pull_source (params s) 2 0 1 = 0 + 0 * nx (params s)"
    by (simp add: pull_source_def)
next
  fix g1
  assume ny1: "1 \<le> ny (params s)"
    and a: "accelerate_flow (params s) (grid s) (obstacles s) = Inr g1"
  have "get_speed (cells (grid s)) (0 + 0 * nx (params s)) 0 = Inl Uninit_read"
    using initialise_rows [OF init, of 0 0] nx1 by simp
  then have "get_speed (cells g1) (0 + 0 * nx (params s)) 0 = Inl Uninit_read"
    using accelerate_flow_effect(3) [OF a, of 0] by simp
  then show "propagate (params s) g1 = Inl Uninit_read"
    using nx1 ny1 by (intro propagate_first_read)
next
  assume c: "sz = 1 \<and> 3 \<le> ny (params s)"
  then have "initialise paramfile obstaclefile 1 = Inr s" using init by simp
  from first_propagate_reached(1) [OF this nx1] c
  show "\<exists>g1. accelerate_flow (params s) (grid s) (obstacles s) = Inr g1 \<and>
           propagate (params s) g1 = Inl Uninit_read" by blast
qed

lemma ex_three_row_returns:
  "\<exists>s. initialise three_row_paramfile no_obstacles 1 = Inr s"
  by (simp add: initialise_defs eval_defs)

theorem first_propagate_reads_unwritten_witness:
  "\<exists>s g1. initialise three_row_paramfile no_obstacles 1 = Inr s \<and>
     nx (params s) = 1 \<and> ny (params s) = 3 \<and> maxIters (params s) = 1 \<and>
     get_speed (cells (grid s)) (0 + 0 * nx (params s)) 0 = Inl Uninit_read \<and>
     iteration 1 0 ([], s) = Inl Uninit_read \<and>
     main_loop 1 ([], s) = Inl Uninit_read \<and>
     pull_source (params s) 2 0 1 = 0 + 0 * nx (params s) \<and>
     accelerate_flow (params s) (grid s) (obstacles s) = Inr g1 \<and>
     propagate (params s) g1 = Inl Uninit_read"
proof -
  obtain s where s: "initialise three_row_paramfile no_obstacles 1 = Inr s"
    using ex_three_row_returns by blast
  then have "read_params three_row_paramfile = Inr (params s)"
    using initialise_Inr by blast
  then have "params s = \<lparr>nx = 1, ny = 3, maxIters = 1, reynolds_dim = 1, density = 1 / 10,
      accel = 1 / 200, omega = 1\<rparr>"
    by (simp add: read_params_three_row)
  then have p: "nx (params s) = 1" "ny (params s) = 3" "maxIters (params s) = 1"
    by simp_all
  have nx1: "1 \<le> nx (params s)" using p by simp
  note T = first_propagate_reads_unwritten [OF s nx1]
  have t1: "get_speed (cells (grid s)) (0 + 0 * nx (params s)) 0 = Inl Uninit_read"
    using T [THEN conjunct1, rule_format, of 0 0] p by simp
  have t2: "iteration 1 0 ([], s) = Inl Uninit_read"
    using T [THEN conjunct2, THEN conjunct1] by blast
  have t3: "main_loop 1 ([], s) = Inl Uninit_read"
    using T [THEN conjunct2, THEN conjunct2, THEN conjunct1] p by simp
  have t4: "pull_source (params s) 2 0 1 = 0 + 0 * nx (params s)"
    using T [THEN conjunct2, THEN conjunct2, THEN conjunct2, THEN conjunct1] p by simp
  obtain g1 where t5: "accelerate_flow (params s) (grid s) (obstacles s) = Inr g1"
    and t6: "propagate (params s) g1 = Inl Uninit_read"
    using T [THEN conjunct2, THEN conjunct2, THEN conjunct2, THEN conjunct2] p by auto
  show ?thesis using s p t1 t2 t3 t4 t5 t6 by blast
qed

text \<open>
  Claim C9 as stated fails: initialise accepts a parameter file with \<open>nx = -1\<close> and
  \<open>ny = -3\<close> on one rank; the run has one iteration; every loop over the grid is empty,
  and the first accelerate\_flow and the first propagate return without a read.
\<close>

theorem first_propagate_reads_nothing:
  "\<exists>s. initialise negative_paramfile no_obstacles 1 = Inr s \<and>
     nx (params s) = - 1 \<and> ny (params s) = - 3 \<and> maxIters (params s) = 1 \<and>
     debug_state_timestep 1 s = Inr ([], [], [], []) \<and>
     accelerate_flow (params s) (grid s) (obstacles s) = Inr (grid s) \<and>
     propagate (params s) (grid s) = Inr (grid s) \<and>
     timestep (params s) (obstacles s) ([], grid s)
        = Inr ([Accelerate, Propagate, Rebound, Collide], grid s)"
  by (simp add: initialise_defs read_params_negative debug_state_timestep_def print_grid_def
      print_mask_def timestep_def call_def kernel_defs eval_defs)

subsection \<open>When initialise returns\<close>













subsection \<open>Loading the parameters\<close>

lemma read_params_missing:
  "read_params missing_paramfile
     = Inl (Fatal ''could not open input parameter file: missing.params'')"
  by (simp add: read_params_def missing_paramfile_def)


lemma read_params_wide_int:
  "read_params wide_int_paramfile = Inr \<lparr>nx = 2, ny = 3, maxIters = 1, reynolds_dim = 2,
     density = 1 / 10, accel = 1 / 200, omega = 1\<rparr>"
  by (simp add: read_params_def wide_int_paramfile_def scan_defs)







end
